theory Spec2Isabelle
  imports Main "HOL-Library.AList"
begin

section \<open>The cluster state model of the VPA recommender (model/cluster.go)\<close>

text \<open>
  A shallow embedding of \<^verbatim>\<open>vertical-pod-autoscaler/pkg/recommender/model/cluster.go\<close>.
  Go maps that the code ranges over are association lists (the list order stands for the
  order of one \<^verbatim>\<open>range\<close>); maps that are only indexed are partial functions.
  The \<^verbatim>\<open>*AggregateContainerState\<close> objects are shared between the aggregation index, the
  VPAs' link sets and the containers, so they live in an explicit store (\<open>heap\<close>) and are
  named by their address. A panic is the value \<open>None\<close> of an outer \<open>option\<close>; a
  returned \<^verbatim>\<open>error\<close> is an \<open>error option\<close> next to the state the call leaves behind.
\<close>

subsection \<open>Go's time package\<close>

text \<open>Instants and durations in nanoseconds. \<^verbatim>\<open>Time.Sub\<close> saturates at the bounds of int64.\<close>

type_synonym time = int
type_synonym Duration = int

definition maxDuration :: Duration where
  "maxDuration = 2 ^ 63 - 1"

definition minDuration :: Duration where
  "minDuration = - (2 ^ 63)"

definition time_Sub :: "time \<Rightarrow> time \<Rightarrow> Duration" where
  "time_Sub t u =
     (if t - u > maxDuration then maxDuration
      else if t - u < minDuration then minDuration
      else t - u)"

definition time_Add :: "time \<Rightarrow> Duration \<Rightarrow> time" where
  "time_Add t d = t + d"

definition time_Before :: "time \<Rightarrow> time \<Rightarrow> bool" where
  "time_Before t u = (t < u)"

definition Minute :: Duration where
  "Minute = 60 * 1000000000"

text \<open>cluster.go, line 35: the maximum time that a recommendation may be missing.\<close>

definition RecommendationMissingMaxDuration :: Duration where
  "RecommendationMissingMaxDuration = 30 * Minute"

subsection \<open>Identifiers, labels and selectors\<close>

datatype PodID = PodID (Namespace: string) (PodName: string)

datatype ContainerID = ContainerID (PodID_of: PodID) (ContainerName: string)

datatype VpaID = VpaID (VpaNamespace: string) (VpaName: string)

type_synonym labelSet = "(string \<times> string) list"

text \<open>
  Modelled from the spec: \<^verbatim>\<open>labels.Set.String()\<close> belongs to the Kubernetes label library.
  The spec (section 3, Label-Set Interner) gives its contract: the canonical string form
  is in one-to-one correspondence with the label set. The string form is therefore the
  label set under a constructor; the form of the empty set is Go's empty string, the zero
  value of \<^verbatim>\<open>labelSetKey\<close>.
\<close>

datatype labelSetKey = LabelSetString labelSet

text \<open>
  \<^verbatim>\<open>labels.Selector\<close> is a Go interface: a value of it is the pair of the methods the
  code calls, \<^verbatim>\<open>Matches\<close> and \<^verbatim>\<open>String\<close>.
\<close>

record Selector =
  sel_Matches :: "labelSet \<Rightarrow> bool"
  sel_String :: string

text \<open>
  Modelled from the spec: \<^verbatim>\<open>vpa_utils.PodLabelsMatchVPA\<close> (package utils/vpa). Sections 3
  and 4.7: a (namespace, label set) matches a policy's (namespace, selector).
\<close>

definition PodLabelsMatchVPA :: "string \<Rightarrow> labelSet \<Rightarrow> string \<Rightarrow> Selector \<Rightarrow> bool" where
  "PodLabelsMatchVPA podNamespace labels vpaNamespace vpaSelector =
     (podNamespace = vpaNamespace \<and> sel_Matches vpaSelector labels)"

subsection \<open>Pods, containers and aggregation keys\<close>

type_synonym addr = nat
type_synonym ResourceAmount = int
type_synonym Resources = "(string \<times> ResourceAmount) list"
type_synonym PodPhase = string

definition PodSucceeded :: PodPhase where
  "PodSucceeded = ''Succeeded''"

definition PodFailed :: PodPhase where
  "PodFailed = ''Failed''"

text \<open>
  What a container's \<^verbatim>\<open>aggregator\<close> field holds: the proxy that \<^verbatim>\<open>AddOrUpdateContainer\<close>
  builds from the container's ID, or the \<^verbatim>\<open>*AggregateContainerState\<close> that
  \<^verbatim>\<open>AddOrUpdatePod\<close> assigns.
\<close>

datatype ContainerStateAggregator =
  ContainerStateAggregatorProxy ContainerID
  | AggregateRef addr

record ContainerState =
  Request :: Resources
  aggregator :: ContainerStateAggregator

definition NewContainerState :: "Resources \<Rightarrow> ContainerStateAggregator \<Rightarrow> ContainerState" where
  "NewContainerState request agg = \<lparr>Request = request, aggregator = agg\<rparr>"

record PodState =
  ID :: PodID
  labelSetKey :: labelSetKey
  Containers :: "(string \<times> ContainerState) list"
  InitContainers :: "string list"
  Phase :: PodPhase

text \<open>
  \<^verbatim>\<open>aggregateStateKey\<close>: its fourth field points to the cluster's one \<^verbatim>\<open>labelSetMap\<close>, the
  same pointer in every key, and is passed to \<open>Labels\<close> instead.
\<close>

datatype aggregateStateKey =
  aggregateStateKey (namespace: string) (containerName: string) (key_labelSetKey: labelSetKey)

text \<open>Indexing a Go \<^verbatim>\<open>labelSetMap\<close>: a key that is not there gives the nil label set.\<close>

definition labelSetMap_get :: "(labelSetKey \<rightharpoonup> labelSet) \<Rightarrow> labelSetKey \<Rightarrow> labelSet" where
  "labelSetMap_get m k = (case m k of None \<Rightarrow> [] | Some ls \<Rightarrow> ls)"

definition Labels :: "(labelSetKey \<rightharpoonup> labelSet) \<Rightarrow> aggregateStateKey \<Rightarrow> labelSet" where
  "Labels m k = labelSetMap_get m (key_labelSetKey k)"

subsection \<open>Policy objects\<close>

record CrossVersionObjectReference =
  ref_Kind :: string
  ref_Name :: string
  ref_APIVersion :: string

record VerticalPodAutoscalerCondition =
  cond_Type :: string
  cond_Status :: string

record RecommendedPodResources =
  ContainerRecommendations :: "(string \<times> Resources) list"

definition RecommendationProvided :: string where
  "RecommendationProvided = ''RecommendationProvided''"

definition ConditionTrue :: string where
  "ConditionTrue = ''True''"

text \<open>The fields of the API object that \<^verbatim>\<open>AddOrUpdateVpa\<close> reads.\<close>

record VerticalPodAutoscaler =
  obj_Namespace :: string
  obj_Name :: string
  obj_Annotations :: "(string \<times> string) list"
  obj_CreationTimestamp :: time
  obj_TargetRef :: CrossVersionObjectReference
  obj_UpdatePolicy :: "string option"
  obj_ResourcePolicy :: "(string \<times> Resources) list option"
  obj_Conditions :: "VerticalPodAutoscalerCondition list"
  obj_Recommendation :: "RecommendedPodResources option"
  obj_Version :: string

type_synonym vpaConditionsMap = "string \<rightharpoonup> VerticalPodAutoscalerCondition"

text \<open>
  Modelled from the spec: the policy object \<^verbatim>\<open>Vpa\<close> (model/vpa.go). Section 3: it holds a
  VpaID, a namespace-scoped pod selector, a target-controller reference, a current
  recommendation (possibly absent), a live pod count and a private set of links into the
  aggregation index keyed by aggregation key; it exposes link-if-matching, unlink and
  has-link. The other fields are the ones \<^verbatim>\<open>AddOrUpdateVpa\<close> refreshes.
\<close>

record Vpa =
  vpa_ID :: VpaID
  PodSelector :: Selector
  Created :: time
  aggregateContainerStates :: "(aggregateStateKey \<times> addr) list"
  PodCount :: int
  TargetRef :: CrossVersionObjectReference
  Annotations :: "(string \<times> string) list"
  Conditions :: vpaConditionsMap
  Recommendation :: "RecommendedPodResources option"
  UpdateMode :: "string option"
  ResourcePolicy :: "(string \<times> Resources) list option"
  APIVersion :: string

definition NewVpa :: "VpaID \<Rightarrow> Selector \<Rightarrow> time \<Rightarrow> Vpa" where
  "NewVpa vpaID selector created =
     \<lparr>vpa_ID = vpaID, PodSelector = selector, Created = created,
      aggregateContainerStates = [], PodCount = 0,
      TargetRef = \<lparr>ref_Kind = [], ref_Name = [], ref_APIVersion = []\<rparr>,
      Annotations = [], Conditions = Map.empty, Recommendation = None,
      UpdateMode = None, ResourcePolicy = None, APIVersion = []\<rparr>"

definition matchesAggregation :: "(labelSetKey \<rightharpoonup> labelSet) \<Rightarrow> Vpa \<Rightarrow> aggregateStateKey \<Rightarrow> bool" where
  "matchesAggregation m vpa aggregationKey =
     PodLabelsMatchVPA (namespace aggregationKey) (Labels m aggregationKey)
       (VpaNamespace (vpa_ID vpa)) (PodSelector vpa)"

definition UsesAggregation :: "Vpa \<Rightarrow> aggregateStateKey \<Rightarrow> bool" where
  "UsesAggregation vpa aggregationKey =
     (map_of (aggregateContainerStates vpa) aggregationKey \<noteq> None)"

definition UseAggregationIfMatching ::
  "(labelSetKey \<rightharpoonup> labelSet) \<Rightarrow> aggregateStateKey \<Rightarrow> addr \<Rightarrow> Vpa \<Rightarrow> Vpa" where
  "UseAggregationIfMatching m aggregationKey aggregation vpa =
     (if matchesAggregation m vpa aggregationKey
      then vpa\<lparr>aggregateContainerStates :=
             AList.update aggregationKey aggregation (aggregateContainerStates vpa)\<rparr>
      else vpa)"

definition DeleteAggregation :: "aggregateStateKey \<Rightarrow> Vpa \<Rightarrow> Vpa" where
  "DeleteAggregation aggregationKey vpa =
     vpa\<lparr>aggregateContainerStates := AList.delete aggregationKey (aggregateContainerStates vpa)\<rparr>"

definition SetUpdateMode :: "string option \<Rightarrow> Vpa \<Rightarrow> Vpa" where
  "SetUpdateMode updatePolicy vpa = vpa\<lparr>UpdateMode := updatePolicy\<rparr>"

definition SetResourcePolicy :: "(string \<times> Resources) list option \<Rightarrow> Vpa \<Rightarrow> Vpa" where
  "SetResourcePolicy resourcePolicy vpa = vpa\<lparr>ResourcePolicy := resourcePolicy\<rparr>"

definition SetAPIVersion :: "string \<Rightarrow> Vpa \<Rightarrow> Vpa" where
  "SetAPIVersion to vpa = vpa\<lparr>APIVersion := to\<rparr>"

subsection \<open>The accumulator and the cluster state\<close>

text \<open>
  \<^verbatim>\<open>AggregateContainerState\<close> is the external accumulator (spec, sections 1 and 3); its
  state is a type parameter, and the operations cluster.go calls on it are the fields of
  an \<open>Accumulator\<close>: the constructor, is-currently-empty, is-expired-as-of and
  mark-not-autoscaled.
\<close>

record 'a Accumulator =
  NewAggregateContainerState :: 'a
  isEmpty :: "'a \<Rightarrow> bool"
  isExpired :: "'a \<Rightarrow> time \<Rightarrow> bool"
  MarkNotAutoscaled :: "'a \<Rightarrow> 'a"

record 'a clusterState =
  pods :: "(PodID \<times> PodState) list"
  vpas :: "(VpaID \<times> Vpa) list"
  emptyVPAs :: "VpaID \<rightharpoonup> time"
  observedVPAs :: "VerticalPodAutoscaler list"
  aggregateStateMap :: "(aggregateStateKey \<times> addr) list"
  labelSetMap :: "labelSetKey \<rightharpoonup> labelSet"
  lastAggregateContainerStateGC :: time
  gcInterval :: Duration
  heap :: "addr \<Rightarrow> 'a"
  nextAddr :: addr

datatype KeyErrorKey =
  PodKey PodID
  | ContainerKey ContainerID
  | NameKey string
  | VpaKey VpaID

datatype error =
  KeyError KeyErrorKey
  | SampleDiscarded
  | RecordOOMError ContainerID string
  | MissingRecommendation VpaID Duration

text \<open>
  A fresh cluster state. No address of the store is in use; every cell holds what an
  allocation would put there.
\<close>

definition NewClusterState :: "'a Accumulator \<Rightarrow> Duration \<Rightarrow> 'a clusterState" where
  "NewClusterState E interval =
     \<lparr>pods = [], vpas = [], emptyVPAs = Map.empty, observedVPAs = [],
      aggregateStateMap = [], labelSetMap = Map.empty,
      lastAggregateContainerStateGC = 0, gcInterval = interval,
      heap = (\<lambda>_. NewAggregateContainerState E), nextAddr = 0\<rparr>"

definition StateMapSize :: "'a clusterState \<Rightarrow> nat" where
  "StateMapSize cluster = length (aggregateStateMap cluster)"

definition newPod :: "PodID \<Rightarrow> PodState" where
  "newPod podID =
     \<lparr>ID = podID, labelSetKey = LabelSetString [], Containers = [], InitContainers = [],
      Phase = []\<rparr>"

definition getLabelSetKey :: "labelSet \<Rightarrow> 'a clusterState \<Rightarrow> labelSetKey \<times> 'a clusterState" where
  "getLabelSetKey labelSet cluster =
     (let k = LabelSetString labelSet
      in (k, cluster\<lparr>labelSetMap := (labelSetMap cluster)(k \<mapsto> labelSet)\<rparr>))"

definition MakeAggregateStateKey :: "PodState \<Rightarrow> string \<Rightarrow> aggregateStateKey" where
  "MakeAggregateStateKey pod name =
     aggregateStateKey (Namespace (ID pod)) name (labelSetKey pod)"

text \<open>\<open>None\<close> is the panic "Pod not present in the ClusterState".\<close>

definition aggregateStateKeyForContainerID ::
  "'a clusterState \<Rightarrow> ContainerID \<Rightarrow> aggregateStateKey option" where
  "aggregateStateKeyForContainerID cluster containerID =
     (case map_of (pods cluster) (PodID_of containerID) of
        None \<Rightarrow> None
      | Some pod \<Rightarrow> Some (MakeAggregateStateKey pod (ContainerName containerID)))"

definition podMatchesVpa :: "'a clusterState \<Rightarrow> PodState \<Rightarrow> Vpa \<Rightarrow> bool" where
  "podMatchesVpa cluster pod vpa =
     PodLabelsMatchVPA (Namespace (ID pod)) (labelSetMap_get (labelSetMap cluster) (labelSetKey pod))
       (VpaNamespace (vpa_ID vpa)) (PodSelector vpa)"

definition addPodToItsVpa :: "PodState \<Rightarrow> 'a clusterState \<Rightarrow> 'a clusterState" where
  "addPodToItsVpa pod cluster =
     cluster\<lparr>vpas := AList.map_ran
        (\<lambda>_ vpa. if podMatchesVpa cluster pod vpa then vpa\<lparr>PodCount := PodCount vpa + 1\<rparr> else vpa)
        (vpas cluster)\<rparr>"

definition removePodFromItsVpa :: "PodState \<Rightarrow> 'a clusterState \<Rightarrow> 'a clusterState" where
  "removePodFromItsVpa pod cluster =
     cluster\<lparr>vpas := AList.map_ran
        (\<lambda>_ vpa. if podMatchesVpa cluster pod vpa then vpa\<lparr>PodCount := PodCount vpa - 1\<rparr> else vpa)
        (vpas cluster)\<rparr>"

definition GetContainer :: "'a clusterState \<Rightarrow> ContainerID \<Rightarrow> ContainerState option" where
  "GetContainer cluster containerID =
     (case map_of (pods cluster) (PodID_of containerID) of
        None \<Rightarrow> None
      | Some pod \<Rightarrow> map_of (Containers pod) (ContainerName containerID))"

definition DeletePod :: "PodID \<Rightarrow> 'a clusterState \<Rightarrow> 'a clusterState" where
  "DeletePod podID cluster =
     (let cluster1 = (case map_of (pods cluster) podID of
                        None \<Rightarrow> cluster
                      | Some pod \<Rightarrow> removePodFromItsVpa pod cluster)
      in cluster1\<lparr>pods := AList.delete podID (pods cluster1)\<rparr>)"

text \<open>
  \<^verbatim>\<open>findOrCreateAggregateContainerState\<close>: the address of the aggregation for the
  container's key. A new aggregation takes the next free address, enters the index and is
  offered to every VPA.
\<close>

definition findOrCreateAggregateContainerState ::
  "'a Accumulator \<Rightarrow> ContainerID \<Rightarrow> 'a clusterState \<Rightarrow> (addr \<times> 'a clusterState) option" where
  "findOrCreateAggregateContainerState E containerID cluster =
     (case aggregateStateKeyForContainerID cluster containerID of
        None \<Rightarrow> None
      | Some key \<Rightarrow>
          (case map_of (aggregateStateMap cluster) key of
             Some a \<Rightarrow> Some (a, cluster)
           | None \<Rightarrow>
               (let a = nextAddr cluster
                in Some (a, cluster
                     \<lparr>vpas := AList.map_ran
                         (\<lambda>_ vpa. UseAggregationIfMatching (labelSetMap cluster) key a vpa)
                         (vpas cluster),
                      aggregateStateMap := AList.update key a (aggregateStateMap cluster),
                      heap := (heap cluster)(a := NewAggregateContainerState E),
                      nextAddr := Suc a\<rparr>))))"

subsection \<open>Policy lifecycle\<close>

fun markAll :: "'a Accumulator \<Rightarrow> (aggregateStateKey \<times> addr) list \<Rightarrow> (addr \<Rightarrow> 'a) \<Rightarrow> (addr \<Rightarrow> 'a)" where
  "markAll E [] h = h"
| "markAll E ((key, a) # rest) h = markAll E rest (h(a := MarkNotAutoscaled E (h a)))"

definition DeleteVpa ::
  "'a Accumulator \<Rightarrow> VpaID \<Rightarrow> 'a clusterState \<Rightarrow> error option \<times> 'a clusterState" where
  "DeleteVpa E vpaID cluster =
     (case map_of (vpas cluster) vpaID of
        None \<Rightarrow> (Some (KeyError (VpaKey vpaID)), cluster)
      | Some vpa \<Rightarrow>
          (None, cluster
             \<lparr>vpas := AList.delete vpaID (vpas cluster),
              emptyVPAs := (emptyVPAs cluster)(vpaID := None),
              heap := markAll E (aggregateContainerStates vpa) (heap cluster)\<rparr>))"

subsection \<open>Recommendation staleness\<close>

definition hasRecommendation :: "Vpa \<Rightarrow> bool" where
  "hasRecommendation vpa =
     (case Recommendation vpa of
        None \<Rightarrow> False
      | Some r \<Rightarrow> 0 < length (ContainerRecommendations r))"

definition RecordRecommendation ::
  "Vpa \<Rightarrow> time \<Rightarrow> 'a clusterState \<Rightarrow> error option \<times> 'a clusterState" where
  "RecordRecommendation vpa now cluster =
     (if hasRecommendation vpa
      then (None, cluster\<lparr>emptyVPAs := (emptyVPAs cluster)(vpa_ID vpa := None)\<rparr>)
      else
        (case emptyVPAs cluster (vpa_ID vpa) of
           None \<Rightarrow> (None, cluster\<lparr>emptyVPAs := (emptyVPAs cluster)(vpa_ID vpa \<mapsto> now)\<rparr>)
         | Some lastLogged \<Rightarrow>
             (if time_Before (time_Add lastLogged RecommendationMissingMaxDuration) now
              then (Some (MissingRecommendation (vpa_ID vpa) RecommendationMissingMaxDuration),
                    cluster\<lparr>emptyVPAs := (emptyVPAs cluster)(vpa_ID vpa \<mapsto> now)\<rparr>)
              else (None, cluster))))"

subsection \<open>Pod and container lifecycle\<close>

text \<open>
  The loop of \<^verbatim>\<open>AddOrUpdatePod\<close> over the pod's containers: each container's aggregator
  becomes the aggregation found or created for its ID.
\<close>

fun relinkContainers ::
  "'a Accumulator \<Rightarrow> PodID \<Rightarrow> string list \<Rightarrow> 'a clusterState \<Rightarrow> 'a clusterState option" where
  "relinkContainers E podID [] cluster = Some cluster"
| "relinkContainers E podID (name # rest) cluster =
     (case findOrCreateAggregateContainerState E (ContainerID podID name) cluster of
        None \<Rightarrow> None
      | Some (a, cluster') \<Rightarrow>
          relinkContainers E podID rest
            (cluster'\<lparr>pods := AList.map_entry podID
               (\<lambda>pod. pod\<lparr>Containers := AList.map_entry name
                  (\<lambda>container. container\<lparr>aggregator := AggregateRef a\<rparr>) (Containers pod)\<rparr>)
               (pods cluster')\<rparr>))"

definition setPhase :: "PodID \<Rightarrow> PodPhase \<Rightarrow> 'a clusterState \<Rightarrow> 'a clusterState" where
  "setPhase podID phase cluster =
     cluster\<lparr>pods := AList.map_entry podID (\<lambda>pod. pod\<lparr>Phase := phase\<rparr>) (pods cluster)\<rparr>"

definition setLabelSetKey :: "PodID \<Rightarrow> labelSetKey \<Rightarrow> 'a clusterState \<Rightarrow> 'a clusterState" where
  "setLabelSetKey podID k cluster =
     cluster\<lparr>pods := AList.map_entry podID (\<lambda>pod. pod\<lparr>labelSetKey := k\<rparr>) (pods cluster)\<rparr>"

definition AddOrUpdatePod ::
  "'a Accumulator \<Rightarrow> PodID \<Rightarrow> labelSet \<Rightarrow> PodPhase \<Rightarrow> 'a clusterState \<Rightarrow> 'a clusterState option" where
  "AddOrUpdatePod E podID newLabels phase cluster =
     (let podExists = (map_of (pods cluster) podID \<noteq> None);
          pod = (case map_of (pods cluster) podID of None \<Rightarrow> newPod podID | Some p \<Rightarrow> p);
          cluster1 = (if podExists then cluster
                      else cluster\<lparr>pods := AList.update podID pod (pods cluster)\<rparr>);
          (newlabelSetKey, cluster2) = getLabelSetKey newLabels cluster1;
          cluster3 = (if podExists \<and> labelSetKey pod \<noteq> newlabelSetKey
                      then removePodFromItsVpa pod cluster2 else cluster2)
      in if \<not> podExists \<or> labelSetKey pod \<noteq> newlabelSetKey
         then (case relinkContainers E podID (map fst (Containers pod))
                      (setLabelSetKey podID newlabelSetKey cluster3) of
                 None \<Rightarrow> None
               | Some cluster4 \<Rightarrow>
                   Some (setPhase podID phase
                     (addPodToItsVpa (pod\<lparr>labelSetKey := newlabelSetKey\<rparr>) cluster4)))
         else Some (setPhase podID phase cluster3))"

definition AddOrUpdateContainer ::
  "'a Accumulator \<Rightarrow> ContainerID \<Rightarrow> Resources \<Rightarrow> 'a clusterState
     \<Rightarrow> (error option \<times> 'a clusterState) option" where
  "AddOrUpdateContainer E containerID request cluster =
     (case map_of (pods cluster) (PodID_of containerID) of
        None \<Rightarrow> Some (Some (KeyError (PodKey (PodID_of containerID))), cluster)
      | Some pod \<Rightarrow>
          (case map_of (Containers pod) (ContainerName containerID) of
             None \<Rightarrow>
               (case findOrCreateAggregateContainerState E containerID cluster of
                  None \<Rightarrow> None
                | Some (a, cluster') \<Rightarrow>
                    Some (None, cluster'\<lparr>pods := AList.map_entry (PodID_of containerID)
                      (\<lambda>p. p\<lparr>Containers := AList.update (ContainerName containerID)
                         (NewContainerState request (ContainerStateAggregatorProxy containerID))
                         (Containers p)\<rparr>)
                      (pods cluster')\<rparr>))
           | Some container \<Rightarrow>
               Some (None, cluster\<lparr>pods := AList.map_entry (PodID_of containerID)
                 (\<lambda>p. p\<lparr>Containers := AList.map_entry (ContainerName containerID)
                    (\<lambda>c. c\<lparr>Request := request\<rparr>) (Containers p)\<rparr>)
                 (pods cluster)\<rparr>)))"

subsection \<open>Usage ingestion\<close>

record ContainerUsageSample =
  MeasureStart :: time
  Usage :: ResourceAmount
  Resource :: string

record ContainerUsageSampleWithKey =
  UsageSample :: ContainerUsageSample
  Container :: ContainerID

text \<open>
  \<^verbatim>\<open>ContainerState.AddSample\<close> and \<^verbatim>\<open>ContainerState.RecordOOM\<close> are methods of the external
  accumulator (model/container.go). They are the first argument of \<open>AddSample\<close> and
  \<open>RecordOOM\<close>: a call returns its verdict and the state it leaves behind.
\<close>

definition AddSample ::
  "(ContainerState \<Rightarrow> ContainerUsageSample \<Rightarrow> 'a clusterState \<Rightarrow> bool \<times> 'a clusterState)
     \<Rightarrow> ContainerUsageSampleWithKey \<Rightarrow> 'a clusterState \<Rightarrow> error option \<times> 'a clusterState" where
  "AddSample containerAddSample sample cluster =
     (case map_of (pods cluster) (PodID_of (Container sample)) of
        None \<Rightarrow> (Some (KeyError (PodKey (PodID_of (Container sample)))), cluster)
      | Some pod \<Rightarrow>
          (case map_of (Containers pod) (ContainerName (Container sample)) of
             None \<Rightarrow> (Some (KeyError (ContainerKey (Container sample))), cluster)
           | Some containerState \<Rightarrow>
               (case containerAddSample containerState (UsageSample sample) cluster of
                  (False, cluster') \<Rightarrow> (Some SampleDiscarded, cluster')
                | (True, cluster') \<Rightarrow> (None, cluster'))))"

definition RecordOOM ::
  "(ContainerState \<Rightarrow> time \<Rightarrow> ResourceAmount \<Rightarrow> 'a clusterState \<Rightarrow> string option \<times> 'a clusterState)
     \<Rightarrow> ContainerID \<Rightarrow> time \<Rightarrow> ResourceAmount \<Rightarrow> 'a clusterState
     \<Rightarrow> error option \<times> 'a clusterState" where
  "RecordOOM containerRecordOOM containerID timestamp requestedMemory cluster =
     (case map_of (pods cluster) (PodID_of containerID) of
        None \<Rightarrow> (Some (KeyError (PodKey (PodID_of containerID))), cluster)
      | Some pod \<Rightarrow>
          (case map_of (Containers pod) (ContainerName containerID) of
             None \<Rightarrow> (Some (KeyError (NameKey (ContainerName containerID))), cluster)
           | Some containerState \<Rightarrow>
               (case containerRecordOOM containerState timestamp requestedMemory cluster of
                  (Some reason, cluster') \<Rightarrow> (Some (RecordOOMError containerID reason), cluster')
                | (None, cluster') \<Rightarrow> (None, cluster'))))"

subsection \<open>Adding and updating a policy\<close>

definition GetMatchingPods :: "Vpa \<Rightarrow> 'a clusterState \<Rightarrow> PodID list" where
  "GetMatchingPods vpa cluster =
     map fst (filter
       (\<lambda>(podID, pod). PodLabelsMatchVPA (Namespace podID)
            (labelSetMap_get (labelSetMap cluster) (labelSetKey pod))
            (VpaNamespace (vpa_ID vpa)) (PodSelector vpa))
       (pods cluster))"

fun conditionsOf :: "VerticalPodAutoscalerCondition list \<Rightarrow> vpaConditionsMap \<Rightarrow> vpaConditionsMap" where
  "conditionsOf [] m = m"
| "conditionsOf (condition # rest) m = conditionsOf rest (m(cond_Type condition \<mapsto> condition))"

text \<open>Indexing a Go \<^verbatim>\<open>vpaConditionsMap\<close>: a missing type gives the zero condition, whose status is empty.\<close>

definition conditionStatus :: "vpaConditionsMap \<Rightarrow> string \<Rightarrow> string" where
  "conditionStatus m t = (case m t of None \<Rightarrow> [] | Some c \<Rightarrow> cond_Status c)"

fun useAll ::
  "(labelSetKey \<rightharpoonup> labelSet) \<Rightarrow> (aggregateStateKey \<times> addr) list \<Rightarrow> Vpa \<Rightarrow> Vpa" where
  "useAll m [] vpa = vpa"
| "useAll m ((aggregationKey, aggregation) # rest) vpa =
     useAll m rest (UseAggregationIfMatching m aggregationKey aggregation vpa)"

text \<open>Lines 295 to 300: the new policy, linked to every matching aggregation, with its pod count.\<close>

definition createVpa :: "VpaID \<Rightarrow> Selector \<Rightarrow> time \<Rightarrow> 'a clusterState \<Rightarrow> 'a clusterState" where
  "createVpa vpaID selector created cluster =
     (let vpa = useAll (labelSetMap cluster) (aggregateStateMap cluster)
                  (NewVpa vpaID selector created);
          vpa' = vpa\<lparr>PodCount := int (length (GetMatchingPods vpa cluster))\<rparr>
      in cluster\<lparr>vpas := AList.update vpaID vpa' (vpas cluster)\<rparr>)"

text \<open>Lines 302 to 308: the fields taken from the API object on every call.\<close>

definition refreshVpa :: "VerticalPodAutoscaler \<Rightarrow> Vpa \<Rightarrow> Vpa" where
  "refreshVpa apiObject vpa =
     (let conditionsMap = conditionsOf (obj_Conditions apiObject) Map.empty;
          currentRecommendation =
            (if conditionStatus conditionsMap RecommendationProvided = ConditionTrue
             then obj_Recommendation apiObject else None)
      in SetAPIVersion (obj_Version apiObject)
           (SetResourcePolicy (obj_ResourcePolicy apiObject)
             (SetUpdateMode (obj_UpdatePolicy apiObject)
               (vpa\<lparr>TargetRef := obj_TargetRef apiObject,
                    Annotations := obj_Annotations apiObject,
                    Conditions := conditionsMap,
                    Recommendation := currentRecommendation\<rparr>))))"

definition AddOrUpdateVpa ::
  "'a Accumulator \<Rightarrow> VerticalPodAutoscaler \<Rightarrow> Selector \<Rightarrow> 'a clusterState
     \<Rightarrow> error option \<times> 'a clusterState" where
  "AddOrUpdateVpa E apiObject selector cluster =
     (let vpaID = VpaID (obj_Namespace apiObject) (obj_Name apiObject);
          (err, vpaExists, cluster1) =
            (case map_of (vpas cluster) vpaID of
               None \<Rightarrow> (None, False, cluster)
             | Some vpa \<Rightarrow>
                 if sel_String (PodSelector vpa) \<noteq> sel_String selector
                 then (case DeleteVpa E vpaID cluster of
                         (Some e, c) \<Rightarrow> (Some e, True, c)
                       | (None, c) \<Rightarrow> (None, False, c))
                 else (None, True, cluster))
      in if err \<noteq> None then (err, cluster1)
         else
           (let cluster2 = (if \<not> vpaExists
                            then createVpa vpaID selector (obj_CreationTimestamp apiObject) cluster1
                            else cluster1)
            in (None, cluster2\<lparr>vpas := AList.map_entry vpaID (refreshVpa apiObject) (vpas cluster2)\<rparr>)))"

subsection \<open>Garbage collection\<close>

record ControllerKeyWithAPIVersion =
  ck_Namespace :: string
  ck_Kind :: string
  ck_Name :: string
  ck_ApiVersion :: string

text \<open>
  The controller fetcher is an argument of the source too: its one method,
  \<^verbatim>\<open>FindTopMostWellKnownOrScalable\<close>, of which the code keeps the controller and drops the error.
\<close>

type_synonym ControllerFetcher = "ControllerKeyWithAPIVersion \<Rightarrow> ControllerKeyWithAPIVersion option"

definition GetControllingVPA :: "PodState \<Rightarrow> 'a clusterState \<Rightarrow> Vpa option" where
  "GetControllingVPA pod cluster =
     map_option snd (find (\<lambda>(vpaID, vpa). podMatchesVpa cluster pod vpa) (vpas cluster))"

definition GetControllerForPodUnderVPA ::
  "ControllerFetcher \<Rightarrow> PodState \<Rightarrow> 'a clusterState \<Rightarrow> ControllerKeyWithAPIVersion option" where
  "GetControllerForPodUnderVPA controllerFetcher pod cluster =
     (case GetControllingVPA pod cluster of
        None \<Rightarrow> None
      | Some controllingVPA \<Rightarrow>
          controllerFetcher
            \<lparr>ck_Namespace = VpaNamespace (vpa_ID controllingVPA),
             ck_Kind = ref_Kind (TargetRef controllingVPA),
             ck_Name = ref_Name (TargetRef controllingVPA),
             ck_ApiVersion = ref_APIVersion (TargetRef controllingVPA)\<rparr>)"

definition podActive :: "PodState \<Rightarrow> bool" where
  "podActive pod = (Phase pod \<noteq> PodSucceeded \<and> Phase pod \<noteq> PodFailed)"

definition getContributiveAggregateStateKeys ::
  "ControllerFetcher \<Rightarrow> 'a clusterState \<Rightarrow> aggregateStateKey list" where
  "getContributiveAggregateStateKeys controllerFetcher cluster =
     concat (map
       (\<lambda>(podID, pod).
          (let podControllerExists =
                 (GetControllerForPodUnderVPA controllerFetcher pod cluster \<noteq> None)
           in if podActive pod \<or> podControllerExists
              then map (\<lambda>(name, container). MakeAggregateStateKey pod name) (Containers pod)
              else []))
       (pods cluster))"

text \<open>The first loop of the sweep (lines 408 to 419).\<close>

fun keysToDelete ::
  "'a Accumulator \<Rightarrow> time \<Rightarrow> aggregateStateKey list \<Rightarrow> (addr \<Rightarrow> 'a)
     \<Rightarrow> (aggregateStateKey \<times> addr) list \<Rightarrow> aggregateStateKey list" where
  "keysToDelete E now contributiveKeys h [] = []"
| "keysToDelete E now contributiveKeys h ((key, a) # rest) =
     (if key \<notin> set contributiveKeys \<and> isEmpty E (h a)
      then key # keysToDelete E now contributiveKeys h rest
      else if isExpired E (h a) now
      then key # keysToDelete E now contributiveKeys h rest
      else keysToDelete E now contributiveKeys h rest)"

text \<open>The second loop of the sweep (lines 420 to 425).\<close>

fun deleteKeys :: "aggregateStateKey list \<Rightarrow> 'a clusterState \<Rightarrow> 'a clusterState" where
  "deleteKeys [] cluster = cluster"
| "deleteKeys (key # rest) cluster =
     deleteKeys rest
       (cluster\<lparr>vpas := AList.map_ran (\<lambda>_ vpa. DeleteAggregation key vpa) (vpas cluster),
                aggregateStateMap := AList.delete key (aggregateStateMap cluster)\<rparr>)"

definition garbageCollectAggregateCollectionStates ::
  "'a Accumulator \<Rightarrow> time \<Rightarrow> ControllerFetcher \<Rightarrow> 'a clusterState \<Rightarrow> 'a clusterState" where
  "garbageCollectAggregateCollectionStates E now controllerFetcher cluster =
     deleteKeys
       (keysToDelete E now (getContributiveAggregateStateKeys controllerFetcher cluster)
          (heap cluster) (aggregateStateMap cluster))
       cluster"

definition RateLimitedGarbageCollectAggregateCollectionStates ::
  "'a Accumulator \<Rightarrow> time \<Rightarrow> ControllerFetcher \<Rightarrow> 'a clusterState \<Rightarrow> 'a clusterState" where
  "RateLimitedGarbageCollectAggregateCollectionStates E now controllerFetcher cluster =
     (if time_Sub now (lastAggregateContainerStateGC cluster) < gcInterval cluster
      then cluster
      else (garbageCollectAggregateCollectionStates E now controllerFetcher cluster)
             \<lparr>lastAggregateContainerStateGC := now\<rparr>)"

subsection \<open>Sequences of operations\<close>

text \<open>
  The mutations of the cluster state as data. A sequence runs from left to right; an
  operation that returns an error leaves the state it returns and the run goes on, a
  panic ends the run with \<open>None\<close>.
\<close>

datatype Op =
  OpAddOrUpdatePod PodID labelSet PodPhase
  | OpDeletePod PodID
  | OpAddOrUpdateContainer ContainerID Resources
  | OpAddOrUpdateVpa VerticalPodAutoscaler Selector
  | OpDeleteVpa VpaID
  | OpGarbageCollect time ControllerFetcher
  | OpRateLimitedGarbageCollect time ControllerFetcher

fun step :: "'a Accumulator \<Rightarrow> Op \<Rightarrow> 'a clusterState \<Rightarrow> 'a clusterState option" where
  "step E (OpAddOrUpdatePod podID newLabels phase) cluster =
     AddOrUpdatePod E podID newLabels phase cluster"
| "step E (OpDeletePod podID) cluster = Some (DeletePod podID cluster)"
| "step E (OpAddOrUpdateContainer containerID request) cluster =
     map_option snd (AddOrUpdateContainer E containerID request cluster)"
| "step E (OpAddOrUpdateVpa apiObject selector) cluster =
     Some (snd (AddOrUpdateVpa E apiObject selector cluster))"
| "step E (OpDeleteVpa vpaID) cluster = Some (snd (DeleteVpa E vpaID cluster))"
| "step E (OpGarbageCollect now controllerFetcher) cluster =
     Some (garbageCollectAggregateCollectionStates E now controllerFetcher cluster)"
| "step E (OpRateLimitedGarbageCollect now controllerFetcher) cluster =
     Some (RateLimitedGarbageCollectAggregateCollectionStates E now controllerFetcher cluster)"

fun run :: "'a Accumulator \<Rightarrow> Op list \<Rightarrow> 'a clusterState \<Rightarrow> 'a clusterState option" where
  "run E [] cluster = Some cluster"
| "run E (op # ops) cluster =
     (case step E op cluster of None \<Rightarrow> None | Some cluster' \<Rightarrow> run E ops cluster')"


subsection \<open>The invariants\<close>

text \<open>
  I2 for one policy, in its strong form: the policy's link for a key is the index entry of
  the key when the key matches the policy, and there is no link otherwise.
\<close>

definition linksMatch ::
  "(labelSetKey \<rightharpoonup> labelSet) \<Rightarrow> (aggregateStateKey \<times> addr) list \<Rightarrow> Vpa \<Rightarrow> bool" where
  "linksMatch m idx vpa =
     (\<forall>K. map_of (aggregateContainerStates vpa) K =
        (if matchesAggregation m vpa K then map_of idx K else None))"

text \<open>The pods as \<^verbatim>\<open>GetMatchingPods\<close> sees them: the ID and the label-set key of each.\<close>

definition podKeys :: "(PodID \<times> PodState) list \<Rightarrow> (PodID \<times> labelSetKey) list" where
  "podKeys ps = map (\<lambda>(podID, pod). (podID, labelSetKey pod)) ps"

definition matchingKey ::
  "(labelSetKey \<rightharpoonup> labelSet) \<Rightarrow> VpaID \<Rightarrow> Selector \<Rightarrow> PodID \<times> labelSetKey \<Rightarrow> bool" where
  "matchingKey m vpaID selector p =
     PodLabelsMatchVPA (Namespace (fst p)) (labelSetMap_get m (snd p)) (VpaNamespace vpaID) selector"

text \<open>
  The registries are Go maps and each pod is stored under its own ID with an interned
  label-set key.
\<close>

definition podsOK :: "'a clusterState \<Rightarrow> bool" where
  "podsOK c =
     (distinct (map fst (pods c))
      \<and> (\<forall>(podID, pod) \<in> set (pods c).
            ID pod = podID \<and> labelSetMap c (labelSetKey pod) \<noteq> None))"

text \<open>
  The interner holds each label set under its own string form, every key of the index is
  interned, and every policy is stored under its own ID with links that match (I2).
\<close>

definition linksOK :: "'a clusterState \<Rightarrow> bool" where
  "linksOK c =
     (distinct (map fst (vpas c)) \<and> distinct (map fst (aggregateStateMap c))
      \<and> (\<forall>ls ls'. labelSetMap c (LabelSetString ls) = Some ls' \<longrightarrow> ls' = ls)
      \<and> (\<forall>(K, a) \<in> set (aggregateStateMap c). labelSetMap c (key_labelSetKey K) \<noteq> None)
      \<and> (\<forall>(vpaID, vpa) \<in> set (vpas c).
            vpa_ID vpa = vpaID \<and> linksMatch (labelSetMap c) (aggregateStateMap c) vpa))"

text \<open>I3: every policy counts the pods that a full scan finds.\<close>

definition countsOK :: "'a clusterState \<Rightarrow> bool" where
  "countsOK c =
     (\<forall>(vpaID, vpa) \<in> set (vpas c). PodCount vpa = int (length (GetMatchingPods vpa c)))"


text \<open>
  I1 for one pod, as the proofs carry it: the container names are the keys of a Go map,
  the index has an entry for every container's key, and the container holds either that
  entry or the proxy built for its own ID.
\<close>

definition podRefsOK :: "(aggregateStateKey \<times> addr) list \<Rightarrow> PodID \<Rightarrow> PodState \<Rightarrow> bool" where
  "podRefsOK idx podID pod =
     (distinct (map fst (Containers pod))
      \<and> (\<forall>(name, container) \<in> set (Containers pod).
            \<exists>a. map_of idx (MakeAggregateStateKey pod name) = Some a
              \<and> (aggregator container = AggregateRef a
                 \<or> aggregator container = ContainerStateAggregatorProxy (ContainerID podID name))))"


text \<open>
  Vocabulary for the proofs. \<open>sameCounts\<close>: the policies are the same up to their
  links. \<open>shifted d\<close>: each policy's pod count has moved by \<open>d\<close> of its ID and selector.
  \<open>relinked\<close>: one step of the loop of \<^verbatim>\<open>AddOrUpdatePod\<close> on the pod itself.
\<close>

definition sameCounts :: "(VpaID \<times> Vpa) list \<Rightarrow> (VpaID \<times> Vpa) list \<Rightarrow> bool" where
  "sameCounts vs vs' =
     (\<exists>F. vs' = AList.map_ran F vs
        \<and> (\<forall>k v. vpa_ID (F k v) = vpa_ID v \<and> PodSelector (F k v) = PodSelector v
              \<and> PodCount (F k v) = PodCount v))"

definition shifted ::
  "(VpaID \<Rightarrow> Selector \<Rightarrow> int) \<Rightarrow> (VpaID \<times> Vpa) list \<Rightarrow> (VpaID \<times> Vpa) list \<Rightarrow> bool" where
  "shifted d vs vs' =
     (\<forall>(vpaID, v') \<in> set vs'. \<exists>v. (vpaID, v) \<in> set vs
        \<and> vpa_ID v' = vpa_ID v \<and> PodSelector v' = PodSelector v
        \<and> PodCount v' = PodCount v + d (vpa_ID v) (PodSelector v))"

definition relinked :: "string \<Rightarrow> addr \<Rightarrow> PodState \<Rightarrow> PodState" where
  "relinked name a pod =
     pod\<lparr>Containers := AList.map_entry name
        (\<lambda>container. container\<lparr>aggregator := AggregateRef a\<rparr>) (Containers pod)\<rparr>"

subsection \<open>Example values\<close>

text \<open>
  An accumulator for the examples: its state is the number of samples and the autoscaled
  flag; an aggregation is created at the epoch and expires eight days later.
\<close>

definition eightDays :: Duration where
  "eightDays = 8 * 24 * 60 * Minute"

definition exampleAccumulator :: "(nat \<times> bool) Accumulator" where
  "exampleAccumulator =
     \<lparr>NewAggregateContainerState = (0, True),
      isEmpty = (\<lambda>s. fst s = 0),
      isExpired = (\<lambda>s now. eightDays \<le> now),
      MarkNotAutoscaled = (\<lambda>s. (fst s, False))\<rparr>"

definition examplePod :: PodID where
  "examplePod = PodID ''ns'' ''p1''"

definition exampleContainer :: ContainerID where
  "exampleContainer = ContainerID examplePod ''c1''"

definition exampleSelector :: Selector where
  "exampleSelector =
     \<lparr>sel_Matches = (\<lambda>ls. map_of ls ''app'' = Some ''foo''), sel_String = ''app=foo''\<rparr>"

definition exampleObject :: VerticalPodAutoscaler where
  "exampleObject =
     \<lparr>obj_Namespace = ''ns'', obj_Name = ''vpa1'', obj_Annotations = [],
      obj_CreationTimestamp = 0,
      obj_TargetRef = \<lparr>ref_Kind = ''Deployment'', ref_Name = ''d1'', ref_APIVersion = ''apps/v1''\<rparr>,
      obj_UpdatePolicy = Some ''Auto'', obj_ResourcePolicy = None, obj_Conditions = [],
      obj_Recommendation = None, obj_Version = ''v1''\<rparr>"

definition exampleVpaID :: VpaID where
  "exampleVpaID = VpaID ''ns'' ''vpa1''"

definition noController :: ControllerFetcher where
  "noController = (\<lambda>_. None)"

definition exampleFresh :: "(nat \<times> bool) clusterState" where
  "exampleFresh = NewClusterState exampleAccumulator (10 * Minute)"

text \<open>A policy without a recommendation, and the state that tracks it as missing since the epoch.\<close>

definition exampleVpa :: Vpa where
  "exampleVpa = NewVpa exampleVpaID exampleSelector 0"

definition exampleTracked :: "(nat \<times> bool) clusterState" where
  "exampleTracked = snd (RecordRecommendation exampleVpa 0 exampleFresh)"

definition exampleLabels :: labelSet where
  "exampleLabels = [(''app'', ''foo'')]"

definition exampleKey :: aggregateStateKey where
  "exampleKey = aggregateStateKey ''ns'' ''c1'' (LabelSetString exampleLabels)"

text \<open>A running pod with one container, and the state that holds just this pod.\<close>

definition exampleRunningPod :: PodState where
  "exampleRunningPod =
     \<lparr>ID = examplePod, labelSetKey = LabelSetString exampleLabels,
      Containers = [(''c1'', NewContainerState [(''cpu'', 100)]
                        (ContainerStateAggregatorProxy exampleContainer))],
      InitContainers = [], Phase = ''Running''\<rparr>"

definition exampleRunning :: "(nat \<times> bool) clusterState" where
  "exampleRunning =
     (case run exampleAccumulator
        [OpAddOrUpdatePod examplePod exampleLabels ''Running'',
         OpAddOrUpdateContainer exampleContainer [(''cpu'', 100)]] exampleFresh of
        None \<Rightarrow> exampleFresh | Some c \<Rightarrow> c)"

text \<open>The same state after the pod has succeeded, and after a policy that selects the pod was added.\<close>

definition exampleFinished :: "(nat \<times> bool) clusterState" where
  "exampleFinished =
     (case run exampleAccumulator [OpAddOrUpdatePod examplePod exampleLabels ''Succeeded'']
             exampleRunning of
        None \<Rightarrow> exampleFresh | Some c \<Rightarrow> c)"

definition exampleLinked :: "(nat \<times> bool) clusterState" where
  "exampleLinked =
     (case run exampleAccumulator [OpAddOrUpdateVpa exampleObject exampleSelector]
             exampleRunning of
        None \<Rightarrow> exampleFresh | Some c \<Rightarrow> c)"

definition exampleLinkedVpa :: Vpa where
  "exampleLinkedVpa =
     refreshVpa exampleObject
       ((NewVpa exampleVpaID exampleSelector 0)
          \<lparr>aggregateContainerStates := [(exampleKey, 0)], PodCount := 1\<rparr>)"


text \<open>
  A container accumulator for the examples: it rejects a sample of negative usage and
  counts any other one in the aggregation the container refers to; it refuses an OOM
  event with a negative memory request.
\<close>

definition countSample :: "addr \<Rightarrow> (nat \<times> bool) clusterState \<Rightarrow> (nat \<times> bool) clusterState" where
  "countSample a cluster =
     cluster\<lparr>heap := (heap cluster)(a := (Suc (fst (heap cluster a)), snd (heap cluster a)))\<rparr>"

definition exampleAddSample ::
  "ContainerState \<Rightarrow> ContainerUsageSample \<Rightarrow> (nat \<times> bool) clusterState
     \<Rightarrow> bool \<times> (nat \<times> bool) clusterState" where
  "exampleAddSample container sample cluster =
     (if Usage sample < 0 then (False, cluster)
      else (True,
        (case aggregator container of
           AggregateRef a \<Rightarrow> countSample a cluster
         | ContainerStateAggregatorProxy containerID \<Rightarrow>
             (case aggregateStateKeyForContainerID cluster containerID of
                None \<Rightarrow> cluster
              | Some key \<Rightarrow>
                  (case map_of (aggregateStateMap cluster) key of
                     None \<Rightarrow> cluster
                   | Some a \<Rightarrow> countSample a cluster)))))"

definition exampleRecordOOM ::
  "ContainerState \<Rightarrow> time \<Rightarrow> ResourceAmount \<Rightarrow> (nat \<times> bool) clusterState
     \<Rightarrow> string option \<times> (nat \<times> bool) clusterState" where
  "exampleRecordOOM container timestamp requestedMemory cluster =
     (if requestedMemory < 0 then (Some ''invalid'', cluster) else (None, cluster))"

definition exampleSample :: "ResourceAmount \<Rightarrow> ContainerUsageSampleWithKey" where
  "exampleSample amount =
     \<lparr>UsageSample = \<lparr>MeasureStart = 0, Usage = amount, Resource = ''cpu''\<rparr>,
      Container = exampleContainer\<rparr>"


definition otherSelector :: Selector where
  "otherSelector =
     \<lparr>sel_Matches = (\<lambda>ls. map_of ls ''app'' = Some ''bar''), sel_String = ''app=bar''\<rparr>"


text \<open>
  Scenario B of the spec followed by a container: the policy first, then the pod it
  selects, then the pod's container.
\<close>

definition exampleScenario :: "Op list" where
  "exampleScenario =
     [OpAddOrUpdateVpa exampleObject exampleSelector,
      OpAddOrUpdatePod examplePod exampleLabels ''Running'',
      OpAddOrUpdateContainer exampleContainer [(''cpu'', 100)]]"

definition exampleCounted :: "(nat \<times> bool) clusterState" where
  "exampleCounted =
     (case run exampleAccumulator exampleScenario exampleFresh of
        None \<Rightarrow> exampleFresh | Some c \<Rightarrow> c)"

definition exampleCountedVpa :: Vpa where
  "exampleCountedVpa =
     (refreshVpa exampleObject (NewVpa exampleVpaID exampleSelector 0))
       \<lparr>aggregateContainerStates := [(exampleKey, 0)], PodCount := 1\<rparr>"











text \<open>
  The API object once the recommender has reported: an earlier condition says that no
  recommendation was provided, the last one says that one was.
\<close>

definition exampleRecommendation :: RecommendedPodResources where
  "exampleRecommendation = \<lparr>ContainerRecommendations = [(''c1'', [(''cpu'', 120)])]\<rparr>"

definition exampleReportedObject :: VerticalPodAutoscaler where
  "exampleReportedObject =
     exampleObject
       \<lparr>obj_Conditions :=
          [\<lparr>cond_Type = RecommendationProvided, cond_Status = ''False''\<rparr>,
           \<lparr>cond_Type = RecommendationProvided, cond_Status = ConditionTrue\<rparr>],
        obj_Recommendation := Some exampleRecommendation\<rparr>"

section \<open>Properties\<close>

subsection \<open>Association lists\<close>

lemma map_ran_id: "AList.map_ran (\<lambda>_ v. v) l = l"
  by (induction l) auto

lemma map_ran_map_ran:
  "AList.map_ran f (AList.map_ran g l) = AList.map_ran (\<lambda>k v. f k (g k v)) l"
  by (induction l) auto

lemma map_of_filter_keys:
  "map_of (filter (\<lambda>p. fst p \<notin> S) l) k = (if k \<in> S then None else map_of l k)"
  by (induction l) auto

lemma delete_as_filter: "AList.delete k l = filter (\<lambda>p. fst p \<noteq> k) l"
  by (induction l) auto

lemma map_of_eq_Some_distinct:
  "distinct (map fst l) \<Longrightarrow> (map_of l k = Some v) = ((k, v) \<in> set l)"
  by simp

subsection \<open>The example states\<close>

lemmas model_defs = AddOrUpdatePod_def AddOrUpdateContainer_def getLabelSetKey_def
  removePodFromItsVpa_def addPodToItsVpa_def setPhase_def setLabelSetKey_def
  findOrCreateAggregateContainerState_def aggregateStateKeyForContainerID_def
  MakeAggregateStateKey_def newPod_def NewContainerState_def NewClusterState_def
  UseAggregationIfMatching_def matchesAggregation_def PodLabelsMatchVPA_def Labels_def
  labelSetMap_get_def podMatchesVpa_def DeletePod_def DeleteVpa_def AddOrUpdateVpa_def
  createVpa_def refreshVpa_def NewVpa_def GetMatchingPods_def conditionStatus_def
  SetAPIVersion_def SetResourcePolicy_def SetUpdateMode_def
  garbageCollectAggregateCollectionStates_def getContributiveAggregateStateKeys_def
  GetControllerForPodUnderVPA_def GetControllingVPA_def podActive_def PodSucceeded_def
  PodFailed_def DeleteAggregation_def

lemmas example_defs = exampleAccumulator_def examplePod_def exampleContainer_def
  exampleSelector_def exampleObject_def exampleVpaID_def noController_def exampleFresh_def
  exampleLabels_def exampleKey_def

lemma example_running:
  "pods exampleRunning = [(examplePod, exampleRunningPod)]"
  "aggregateStateMap exampleRunning = [(exampleKey, 0)]"
  "vpas exampleRunning = []"
  "heap exampleRunning 0 = (0, True)"
  "labelSetMap exampleRunning = [LabelSetString exampleLabels \<mapsto> exampleLabels]"
  by (simp_all add: exampleRunning_def exampleRunningPod_def model_defs example_defs Let_def)

lemma example_finished:
  "pods exampleFinished = [(examplePod, exampleRunningPod\<lparr>Phase := ''Succeeded''\<rparr>)]"
  "aggregateStateMap exampleFinished = [(exampleKey, 0)]"
  "vpas exampleFinished = []"
  "heap exampleFinished 0 = (0, True)"
  "labelSetMap exampleFinished = [LabelSetString exampleLabels \<mapsto> exampleLabels]"
  by (simp_all add: exampleFinished_def example_running setPhase_def AddOrUpdatePod_def
      getLabelSetKey_def exampleRunningPod_def Let_def)

lemma example_linked:
  "pods exampleLinked = [(examplePod, exampleRunningPod)]"
  "aggregateStateMap exampleLinked = [(exampleKey, 0)]"
  "vpas exampleLinked = [(exampleVpaID, exampleLinkedVpa)]"
  "heap exampleLinked 0 = (0, True)"
  "labelSetMap exampleLinked = [LabelSetString exampleLabels \<mapsto> exampleLabels]"
  by (simp_all add: exampleLinked_def exampleLinkedVpa_def example_running AddOrUpdateVpa_def
      createVpa_def GetMatchingPods_def exampleRunningPod_def Let_def
      UseAggregationIfMatching_def matchesAggregation_def PodLabelsMatchVPA_def Labels_def
      labelSetMap_get_def example_defs NewVpa_def)

lemma example_expiry:
  "isExpired exampleAccumulator s eightDays" "\<not> isExpired exampleAccumulator s Minute"
  "isEmpty exampleAccumulator (0, b)"
  by (simp_all add: exampleAccumulator_def Minute_def eightDays_def)

lemma example_pod_facts:
  "podActive exampleRunningPod" "\<not> podActive (exampleRunningPod\<lparr>Phase := ''Succeeded''\<rparr>)"
  "MakeAggregateStateKey exampleRunningPod ''c1'' = exampleKey"
  "MakeAggregateStateKey (exampleRunningPod\<lparr>Phase := ''Succeeded''\<rparr>) ''c1'' = exampleKey"
  by (simp_all add: podActive_def exampleRunningPod_def PodSucceeded_def PodFailed_def
      MakeAggregateStateKey_def exampleKey_def examplePod_def)

lemma example_tracked:
  "\<not> hasRecommendation exampleVpa" "vpa_ID exampleVpa = exampleVpaID"
  "emptyVPAs exampleTracked exampleVpaID = Some 0"
  by (simp_all add: hasRecommendation_def exampleVpa_def NewVpa_def exampleTracked_def
      RecordRecommendation_def exampleFresh_def NewClusterState_def)

lemma example_fresh_gc:
  "lastAggregateContainerStateGC exampleFresh = 0" "gcInterval exampleFresh = 10 * Minute"
  by (simp_all add: exampleFresh_def NewClusterState_def)

subsection \<open>Deleting a policy\<close>

lemma markAll_other: "a \<notin> snd ` set l \<Longrightarrow> markAll E l h a = h a"
  by (induction l arbitrary: h) auto

lemma markAll_linked:
  "distinct (map snd l) \<Longrightarrow> a \<in> snd ` set l \<Longrightarrow> markAll E l h a = MarkNotAutoscaled E (h a)"
proof (induction l arbitrary: h)
  case Nil
  then show ?case by simp
next
  case (Cons p l)
  obtain k b where p: "p = (k, b)" by (cases p)
  show ?case
  proof (cases "a = b")
    case True
    with Cons.prems p have "a \<notin> snd ` set l" by auto
    then show ?thesis using p True by (simp add: markAll_other)
  next
    case False
    with Cons.prems p have "a \<in> snd ` set l" "distinct (map snd l)" by auto
    then show ?thesis using p False Cons.IH by simp
  qed
qed

text \<open>
  C10. \<^verbatim>\<open>DeleteVpa\<close> returns an error exactly when no policy with the ID is registered;
  the error is the key error for that ID and the state is the one it was given. Otherwise
  the policy leaves the registry, its staleness entry is removed, every aggregation it
  was linked to is marked not-autoscaled (once, when the links point to different
  aggregations), no other aggregation is touched, and pods, index and interner stay.
\<close>

theorem DeleteVpa_not_found_or_removed:
  "(fst (DeleteVpa E vpaID cluster) \<noteq> None \<longleftrightarrow> map_of (vpas cluster) vpaID = None)
   \<and> (map_of (vpas cluster) vpaID = None \<longrightarrow>
        DeleteVpa E vpaID cluster = (Some (KeyError (VpaKey vpaID)), cluster))
   \<and> (\<forall>vpa. map_of (vpas cluster) vpaID = Some vpa \<longrightarrow>
        (let cluster' = snd (DeleteVpa E vpaID cluster) in
           map_of (vpas cluster') = (map_of (vpas cluster))(vpaID := None)
         \<and> emptyVPAs cluster' = (emptyVPAs cluster)(vpaID := None)
         \<and> (\<forall>a. a \<notin> snd ` set (aggregateContainerStates vpa) \<longrightarrow> heap cluster' a = heap cluster a)
         \<and> (distinct (map snd (aggregateContainerStates vpa)) \<longrightarrow>
              (\<forall>a \<in> snd ` set (aggregateContainerStates vpa).
                 heap cluster' a = MarkNotAutoscaled E (heap cluster a)))
         \<and> pods cluster' = pods cluster
         \<and> aggregateStateMap cluster' = aggregateStateMap cluster
         \<and> labelSetMap cluster' = labelSetMap cluster))"
  by (auto simp: DeleteVpa_def Let_def markAll_other markAll_linked AList.delete_conv'
      split: option.splits)

theorem DeleteVpa_witness:
  "DeleteVpa exampleAccumulator exampleVpaID exampleFresh
     = (Some (KeyError (VpaKey exampleVpaID)), exampleFresh)
   \<and> fst (DeleteVpa exampleAccumulator exampleVpaID exampleLinked) = None
   \<and> map_of (vpas (snd (DeleteVpa exampleAccumulator exampleVpaID exampleLinked))) exampleVpaID = None
   \<and> heap exampleLinked 0 = (0, True)
   \<and> heap (snd (DeleteVpa exampleAccumulator exampleVpaID exampleLinked)) 0 = (0, False)"
proof -
  have absent: "map_of (vpas exampleFresh) exampleVpaID = None"
    by (simp add: exampleFresh_def NewClusterState_def)
  have present: "map_of (vpas exampleLinked) exampleVpaID = Some exampleLinkedVpa"
    by (simp add: example_linked)
  have links: "aggregateContainerStates exampleLinkedVpa = [(exampleKey, 0)]"
    by (simp add: exampleLinkedVpa_def refreshVpa_def SetAPIVersion_def SetResourcePolicy_def
        SetUpdateMode_def Let_def)
  have "DeleteVpa exampleAccumulator exampleVpaID exampleFresh
     = (Some (KeyError (VpaKey exampleVpaID)), exampleFresh)"
    using DeleteVpa_not_found_or_removed [of exampleAccumulator exampleVpaID exampleFresh] absent
    by blast
  moreover have "fst (DeleteVpa exampleAccumulator exampleVpaID exampleLinked) = None
   \<and> map_of (vpas (snd (DeleteVpa exampleAccumulator exampleVpaID exampleLinked))) exampleVpaID = None
   \<and> heap (snd (DeleteVpa exampleAccumulator exampleVpaID exampleLinked)) 0
        = MarkNotAutoscaled exampleAccumulator (heap exampleLinked 0)"
    using DeleteVpa_not_found_or_removed [of exampleAccumulator exampleVpaID exampleLinked]
      present links
    by (auto simp: Let_def)
  ultimately show ?thesis by (simp add: example_linked exampleAccumulator_def)
qed

subsection \<open>The sweep\<close>

lemma deleteKeys_aggregateStateMap:
  "aggregateStateMap (deleteKeys ks c) = filter (\<lambda>p. fst p \<notin> set ks) (aggregateStateMap c)"
  by (induction ks arbitrary: c) (auto simp: delete_as_filter intro: filter_cong)

lemma deleteKeys_vpas:
  "vpas (deleteKeys ks c) =
     AList.map_ran (\<lambda>_ vpa. vpa\<lparr>aggregateContainerStates :=
        filter (\<lambda>p. fst p \<notin> set ks) (aggregateContainerStates vpa)\<rparr>) (vpas c)"
proof (induction ks arbitrary: c)
  case Nil
  then show ?case by (simp add: map_ran_id)
next
  case (Cons k ks)
  have "\<And>l. filter (\<lambda>p. fst p \<notin> set ks) (filter (\<lambda>p. fst p \<noteq> k) l) =
      filter (\<lambda>p. fst p \<notin> set (k # ks)) l"
    by (auto intro: filter_cong)
  then show ?case
    by (simp add: Cons.IH map_ran_map_ran DeleteAggregation_def delete_as_filter)
qed

lemma deleteKeys_frame:
  "pods (deleteKeys ks c) = pods c" "heap (deleteKeys ks c) = heap c"
  "labelSetMap (deleteKeys ks c) = labelSetMap c" "emptyVPAs (deleteKeys ks c) = emptyVPAs c"
  "nextAddr (deleteKeys ks c) = nextAddr c"
  "lastAggregateContainerStateGC (deleteKeys ks c) = lastAggregateContainerStateGC c"
  by (induction ks arbitrary: c) auto

lemma set_keysToDelete:
  "k \<in> set (keysToDelete E now ck h idx) \<longleftrightarrow>
     (\<exists>a. (k, a) \<in> set idx \<and> ((k \<notin> set ck \<and> isEmpty E (h a)) \<or> isExpired E (h a) now))"
proof (induction idx)
  case Nil
  then show ?case by simp
next
  case (Cons p idx)
  obtain k' a' where p: "p = (k', a')" by (cases p)
  show ?case unfolding p using Cons.IH by (auto split: if_splits)
qed

lemma set_getContributiveAggregateStateKeys:
  "k \<in> set (getContributiveAggregateStateKeys f cluster) \<longleftrightarrow>
     (\<exists>podID pod name container. (podID, pod) \<in> set (pods cluster)
          \<and> (name, container) \<in> set (Containers pod)
          \<and> k = MakeAggregateStateKey pod name
          \<and> (podActive pod \<or> GetControllerForPodUnderVPA f pod cluster \<noteq> None))"
  unfolding getContributiveAggregateStateKeys_def Let_def
  by (auto split: if_splits) (force+)?

lemma garbageCollect_index:
  "map_of (aggregateStateMap (garbageCollectAggregateCollectionStates E now f cluster)) K =
     (if K \<in> set (keysToDelete E now (getContributiveAggregateStateKeys f cluster)
                    (heap cluster) (aggregateStateMap cluster))
      then None else map_of (aggregateStateMap cluster) K)"
  by (simp add: garbageCollectAggregateCollectionStates_def deleteKeys_aggregateStateMap
      map_of_filter_keys)

lemma garbageCollect_links:
  assumes "(vpaID, vpa') \<in> set (vpas (garbageCollectAggregateCollectionStates E now f cluster))"
  shows "\<exists>vpa. (vpaID, vpa) \<in> set (vpas cluster) \<and>
     (\<forall>K. map_of (aggregateContainerStates vpa') K =
        (if K \<in> set (keysToDelete E now (getContributiveAggregateStateKeys f cluster)
                    (heap cluster) (aggregateStateMap cluster))
         then None else map_of (aggregateContainerStates vpa) K))"
  using assms
  by (auto simp: garbageCollectAggregateCollectionStates_def deleteKeys_vpas AList.map_ran_def
      map_of_filter_keys)

lemma garbageCollect_frame:
  "pods (garbageCollectAggregateCollectionStates E now f cluster) = pods cluster"
  "heap (garbageCollectAggregateCollectionStates E now f cluster) = heap cluster"
  "labelSetMap (garbageCollectAggregateCollectionStates E now f cluster) = labelSetMap cluster"
  by (simp_all add: garbageCollectAggregateCollectionStates_def deleteKeys_frame)

text \<open>
  C4. In a state whose index has one entry per key, the sweep at \<open>now\<close> deletes the
  entry of a key exactly when the key is not contributive and its aggregation is empty, or
  its aggregation is expired as of \<open>now\<close>; a deleted key is gone from the link set of
  every policy, any other entry stays as it was, and the sweep adds none. A key is
  contributive exactly when it is the key of a container of a registered pod that is
  active or for which \<^verbatim>\<open>GetControllerForPodUnderVPA\<close> finds a controller.
\<close>

theorem garbageCollect_deletes_exactly:
  assumes "distinct (map fst (aggregateStateMap cluster))"
  shows
  "(\<forall>K a. map_of (aggregateStateMap cluster) K = Some a \<longrightarrow>
      (if (K \<notin> set (getContributiveAggregateStateKeys f cluster) \<and> isEmpty E (heap cluster a))
          \<or> isExpired E (heap cluster a) now
       then map_of (aggregateStateMap (garbageCollectAggregateCollectionStates E now f cluster)) K = None
          \<and> (\<forall>(vpaID, vpa) \<in> set (vpas (garbageCollectAggregateCollectionStates E now f cluster)).
               map_of (aggregateContainerStates vpa) K = None)
       else map_of (aggregateStateMap (garbageCollectAggregateCollectionStates E now f cluster)) K = Some a))
   \<and> (\<forall>K. map_of (aggregateStateMap cluster) K = None \<longrightarrow>
        map_of (aggregateStateMap (garbageCollectAggregateCollectionStates E now f cluster)) K = None)
   \<and> (\<forall>K. K \<in> set (getContributiveAggregateStateKeys f cluster) \<longleftrightarrow>
        (\<exists>podID pod name container. (podID, pod) \<in> set (pods cluster)
          \<and> (name, container) \<in> set (Containers pod)
          \<and> K = MakeAggregateStateKey pod name
          \<and> (podActive pod \<or> GetControllerForPodUnderVPA f pod cluster \<noteq> None)))
   \<and> pods (garbageCollectAggregateCollectionStates E now f cluster) = pods cluster"
proof -
  let ?ck = "getContributiveAggregateStateKeys f cluster"
  let ?del = "set (keysToDelete E now ?ck (heap cluster) (aggregateStateMap cluster))"
  have del: "K \<in> ?del \<longleftrightarrow>
      ((K \<notin> set ?ck \<and> isEmpty E (heap cluster a)) \<or> isExpired E (heap cluster a) now)"
    if "map_of (aggregateStateMap cluster) K = Some a" for K a
  proof -
    have "\<And>b. (K, b) \<in> set (aggregateStateMap cluster) \<longleftrightarrow> b = a"
      using that assms by (metis map_of_eq_Some_distinct option.inject)
    then show ?thesis by (simp add: set_keysToDelete)
  qed
  have links: "map_of (aggregateContainerStates vpa') K = None"
    if "K \<in> ?del"
      "(vpaID, vpa') \<in> set (vpas (garbageCollectAggregateCollectionStates E now f cluster))"
    for K vpaID vpa'
    using garbageCollect_links [OF that(2)] that(1) by auto
  have first: "\<forall>K a. map_of (aggregateStateMap cluster) K = Some a \<longrightarrow>
      (if (K \<notin> set ?ck \<and> isEmpty E (heap cluster a)) \<or> isExpired E (heap cluster a) now
       then map_of (aggregateStateMap (garbageCollectAggregateCollectionStates E now f cluster)) K = None
          \<and> (\<forall>(vpaID, vpa) \<in> set (vpas (garbageCollectAggregateCollectionStates E now f cluster)).
               map_of (aggregateContainerStates vpa) K = None)
       else map_of (aggregateStateMap (garbageCollectAggregateCollectionStates E now f cluster)) K = Some a)"
  proof (intro allI impI)
    fix K a
    assume K: "map_of (aggregateStateMap cluster) K = Some a"
    show "if (K \<notin> set ?ck \<and> isEmpty E (heap cluster a)) \<or> isExpired E (heap cluster a) now
       then map_of (aggregateStateMap (garbageCollectAggregateCollectionStates E now f cluster)) K = None
          \<and> (\<forall>(vpaID, vpa) \<in> set (vpas (garbageCollectAggregateCollectionStates E now f cluster)).
               map_of (aggregateContainerStates vpa) K = None)
       else map_of (aggregateStateMap (garbageCollectAggregateCollectionStates E now f cluster)) K = Some a"
    proof (cases "K \<in> ?del")
      case True
      then have c: "(K \<notin> set ?ck \<and> isEmpty E (heap cluster a)) \<or> isExpired E (heap cluster a) now"
        using del [OF K] by simp
      have "map_of (aggregateStateMap (garbageCollectAggregateCollectionStates E now f cluster)) K = None"
        using True by (simp add: garbageCollect_index)
      moreover have "\<forall>(vpaID, vpa) \<in> set (vpas (garbageCollectAggregateCollectionStates E now f cluster)).
               map_of (aggregateContainerStates vpa) K = None"
        using links [OF True] by blast
      ultimately show ?thesis unfolding if_P [OF c] by blast
    next
      case False
      then have c: "\<not> ((K \<notin> set ?ck \<and> isEmpty E (heap cluster a)) \<or> isExpired E (heap cluster a) now)"
        using del [OF K] by simp
      have "map_of (aggregateStateMap (garbageCollectAggregateCollectionStates E now f cluster)) K = Some a"
        using False K by (simp add: garbageCollect_index)
      then show ?thesis unfolding if_not_P [OF c] .
    qed
  qed
  have second: "\<forall>K. map_of (aggregateStateMap cluster) K = None \<longrightarrow>
        map_of (aggregateStateMap (garbageCollectAggregateCollectionStates E now f cluster)) K = None"
    by (simp add: garbageCollect_index)
  have third: "\<forall>K. K \<in> set ?ck \<longleftrightarrow>
        (\<exists>podID pod name container. (podID, pod) \<in> set (pods cluster)
          \<and> (name, container) \<in> set (Containers pod)
          \<and> K = MakeAggregateStateKey pod name
          \<and> (podActive pod \<or> GetControllerForPodUnderVPA f pod cluster \<noteq> None))"
    using set_getContributiveAggregateStateKeys by blast
  from first second third show ?thesis by (simp add: garbageCollect_frame)
qed

theorem garbageCollect_deletes_exactly_witness:
  "map_of (aggregateStateMap (garbageCollectAggregateCollectionStates exampleAccumulator
       eightDays noController exampleRunning)) exampleKey = None
   \<and> map_of (aggregateStateMap (garbageCollectAggregateCollectionStates exampleAccumulator
       Minute noController exampleRunning)) exampleKey = Some 0
   \<and> exampleKey \<in> set (getContributiveAggregateStateKeys noController exampleRunning)"
proof -
  have d: "distinct (map fst (aggregateStateMap exampleRunning))"
    by (simp add: example_running)
  have k: "map_of (aggregateStateMap exampleRunning) exampleKey = Some 0"
    by (simp add: example_running)
  have c: "exampleKey \<in> set (getContributiveAggregateStateKeys noController exampleRunning)"
    using garbageCollect_deletes_exactly [OF d, of noController exampleAccumulator Minute]
      example_pod_facts
    by (auto simp: example_running exampleRunningPod_def)
  have "map_of (aggregateStateMap (garbageCollectAggregateCollectionStates exampleAccumulator
       eightDays noController exampleRunning)) exampleKey = None"
    using garbageCollect_deletes_exactly
      [OF d, of noController exampleAccumulator "eightDays"] k example_expiry(1)
    by (auto split: if_splits)
  moreover have "map_of (aggregateStateMap (garbageCollectAggregateCollectionStates exampleAccumulator
       Minute noController exampleRunning)) exampleKey = Some 0"
    using garbageCollect_deletes_exactly [OF d, of noController exampleAccumulator Minute]
      k c example_expiry(2)
    by (auto split: if_splits)
  ultimately show ?thesis using c by blast
qed

text \<open>
  C5, as the code has it. The sweep keeps the aggregation of a key that a container of an
  active pod has, whether it is empty or not, unless the aggregation is expired as of
  \<open>now\<close>; and it deletes an empty aggregation whose key no registered pod with a
  container of that key backs, neither by being active nor through a controller.
\<close>

theorem garbageCollect_keeps_active_unexpired:
  assumes "distinct (map fst (aggregateStateMap cluster))"
  shows
  "(\<forall>K a podID pod name container.
      map_of (aggregateStateMap cluster) K = Some a
      \<and> (podID, pod) \<in> set (pods cluster) \<and> (name, container) \<in> set (Containers pod)
      \<and> K = MakeAggregateStateKey pod name \<and> podActive pod
      \<and> \<not> isExpired E (heap cluster a) now \<longrightarrow>
        map_of (aggregateStateMap (garbageCollectAggregateCollectionStates E now f cluster)) K = Some a)
   \<and> (\<forall>K a. map_of (aggregateStateMap cluster) K = Some a \<and> isEmpty E (heap cluster a)
      \<and> (\<forall>podID pod name container.
            (podID, pod) \<in> set (pods cluster) \<and> (name, container) \<in> set (Containers pod)
            \<and> K = MakeAggregateStateKey pod name \<longrightarrow>
              \<not> podActive pod \<and> GetControllerForPodUnderVPA f pod cluster = None) \<longrightarrow>
        map_of (aggregateStateMap (garbageCollectAggregateCollectionStates E now f cluster)) K = None)"
proof -
  let ?ck = "getContributiveAggregateStateKeys f cluster"
  let ?del = "set (keysToDelete E now ?ck (heap cluster) (aggregateStateMap cluster))"
  have del: "K \<in> ?del \<longleftrightarrow>
      ((K \<notin> set ?ck \<and> isEmpty E (heap cluster a)) \<or> isExpired E (heap cluster a) now)"
    if "map_of (aggregateStateMap cluster) K = Some a" for K a
  proof -
    have "\<And>b. (K, b) \<in> set (aggregateStateMap cluster) \<longleftrightarrow> b = a"
      using that assms by (metis map_of_eq_Some_distinct option.inject)
    then show ?thesis by (simp add: set_keysToDelete)
  qed
  have kept: "map_of (aggregateStateMap (garbageCollectAggregateCollectionStates E now f cluster)) K = Some a"
    if "map_of (aggregateStateMap cluster) K = Some a" "(podID, pod) \<in> set (pods cluster)"
      "(name, container) \<in> set (Containers pod)" "K = MakeAggregateStateKey pod name"
      "podActive pod" "\<not> isExpired E (heap cluster a) now"
    for K a podID pod name container
  proof -
    have "K \<in> set ?ck"
      using that(2-5) set_getContributiveAggregateStateKeys by blast
    then have "K \<notin> ?del" using del [OF that(1)] that(6) by simp
    then show ?thesis using that(1) by (simp add: garbageCollect_index)
  qed
  have gone: "map_of (aggregateStateMap (garbageCollectAggregateCollectionStates E now f cluster)) K = None"
    if "map_of (aggregateStateMap cluster) K = Some a" "isEmpty E (heap cluster a)"
      "\<forall>podID pod name container.
            (podID, pod) \<in> set (pods cluster) \<and> (name, container) \<in> set (Containers pod)
            \<and> K = MakeAggregateStateKey pod name \<longrightarrow>
              \<not> podActive pod \<and> GetControllerForPodUnderVPA f pod cluster = None"
    for K a
  proof -
    have "K \<notin> set ?ck"
      using that(3) by (simp add: set_getContributiveAggregateStateKeys) blast
    then have "K \<in> ?del" using del [OF that(1)] that(2) by simp
    then show ?thesis by (simp add: garbageCollect_index)
  qed
  from kept gone show ?thesis by blast
qed

theorem garbageCollect_keeps_active_unexpired_witness:
  "map_of (aggregateStateMap (garbageCollectAggregateCollectionStates exampleAccumulator
       Minute noController exampleRunning)) exampleKey = Some 0
   \<and> map_of (aggregateStateMap (garbageCollectAggregateCollectionStates exampleAccumulator
       Minute noController exampleFinished)) exampleKey = None"
proof -
  have d: "distinct (map fst (aggregateStateMap exampleRunning))"
    "distinct (map fst (aggregateStateMap exampleFinished))"
    by (simp_all add: example_running example_finished)
  have "map_of (aggregateStateMap (garbageCollectAggregateCollectionStates exampleAccumulator
       Minute noController exampleRunning)) exampleKey = Some 0"
  proof -
    have "map_of (aggregateStateMap exampleRunning) exampleKey = Some 0
      \<and> (examplePod, exampleRunningPod) \<in> set (pods exampleRunning)
      \<and> (''c1'', NewContainerState [(''cpu'', 100)] (ContainerStateAggregatorProxy exampleContainer))
           \<in> set (Containers exampleRunningPod)
      \<and> exampleKey = MakeAggregateStateKey exampleRunningPod ''c1'' \<and> podActive exampleRunningPod
      \<and> \<not> isExpired exampleAccumulator (heap exampleRunning 0) Minute"
      by (simp add: example_running example_pod_facts example_expiry)
        (simp add: exampleRunningPod_def)
    then show ?thesis
      using garbageCollect_keeps_active_unexpired
        [OF d(1), of exampleAccumulator Minute noController]
      by blast
  qed
  moreover have "map_of (aggregateStateMap (garbageCollectAggregateCollectionStates exampleAccumulator
       Minute noController exampleFinished)) exampleKey = None"
  proof -
    have "map_of (aggregateStateMap exampleFinished) exampleKey = Some 0
      \<and> isEmpty exampleAccumulator (heap exampleFinished 0)
      \<and> (\<forall>podID pod name container.
            (podID, pod) \<in> set (pods exampleFinished) \<and> (name, container) \<in> set (Containers pod)
            \<and> exampleKey = MakeAggregateStateKey pod name \<longrightarrow>
              \<not> podActive pod \<and> GetControllerForPodUnderVPA noController pod exampleFinished = None)"
      by (simp add: example_finished example_pod_facts example_expiry
          GetControllerForPodUnderVPA_def GetControllingVPA_def)
    then show ?thesis
      using garbageCollect_keeps_active_unexpired
        [OF d(2), of exampleAccumulator Minute noController]
      by blast
  qed
  ultimately show ?thesis by blast
qed

text \<open>
  C5 as the claim states it fails for an expired aggregation: the pod is running, its
  container has the key, and the sweep eight days after the epoch deletes the entry.
\<close>

theorem garbageCollect_deletes_expired_under_active_pod_counterexample:
  "pods exampleRunning = [(examplePod, exampleRunningPod)]
   \<and> podActive exampleRunningPod
   \<and> map fst (Containers exampleRunningPod) = [''c1'']
   \<and> MakeAggregateStateKey exampleRunningPod ''c1'' = exampleKey
   \<and> map_of (aggregateStateMap exampleRunning) exampleKey = Some 0
   \<and> map_of (aggregateStateMap (garbageCollectAggregateCollectionStates exampleAccumulator
       eightDays noController exampleRunning)) exampleKey = None"
  by (simp add: example_running example_pod_facts garbageCollect_index set_keysToDelete
      example_expiry)
    (simp add: exampleRunningPod_def)

subsection \<open>Rate-limited garbage collection\<close>

lemma deleteKeys_gcInterval: "gcInterval (deleteKeys ks c) = gcInterval c"
  by (induction ks arbitrary: c) auto

lemma garbageCollect_gcInterval:
  "gcInterval (garbageCollectAggregateCollectionStates E now f c) = gcInterval c"
  by (simp add: garbageCollectAggregateCollectionStates_def deleteKeys_gcInterval)

text \<open>
  C6. The rate-limited entry point is a no-op when \<^verbatim>\<open>now.Sub(last)\<close> is below the
  interval, and otherwise the sweep at \<open>now\<close> followed by storing \<open>now\<close> as the time of the
  last sweep. Of two triggers less than the interval apart, the second is a no-op or the
  first was one: at most one of them sweeps.
\<close>

theorem RateLimitedGC_sweeps_once_per_interval:
  "(time_Sub now (lastAggregateContainerStateGC cluster) < gcInterval cluster \<longrightarrow>
      RateLimitedGarbageCollectAggregateCollectionStates E now f cluster = cluster)
   \<and> (gcInterval cluster \<le> time_Sub now (lastAggregateContainerStateGC cluster) \<longrightarrow>
      RateLimitedGarbageCollectAggregateCollectionStates E now f cluster =
        (garbageCollectAggregateCollectionStates E now f cluster)\<lparr>lastAggregateContainerStateGC := now\<rparr>)
   \<and> (time_Sub now' now < gcInterval cluster \<longrightarrow>
        RateLimitedGarbageCollectAggregateCollectionStates E now' f'
          (RateLimitedGarbageCollectAggregateCollectionStates E now f cluster)
        = RateLimitedGarbageCollectAggregateCollectionStates E now f cluster
      \<or> RateLimitedGarbageCollectAggregateCollectionStates E now f cluster = cluster)"
  by (auto simp: RateLimitedGarbageCollectAggregateCollectionStates_def garbageCollect_gcInterval)

theorem RateLimitedGC_witness:
  "RateLimitedGarbageCollectAggregateCollectionStates exampleAccumulator (11 * Minute) noController
       exampleFresh
     = (garbageCollectAggregateCollectionStates exampleAccumulator (11 * Minute) noController
          exampleFresh)\<lparr>lastAggregateContainerStateGC := 11 * Minute\<rparr>
   \<and> RateLimitedGarbageCollectAggregateCollectionStates exampleAccumulator (9 * Minute) noController
       exampleFresh = exampleFresh
   \<and> RateLimitedGarbageCollectAggregateCollectionStates exampleAccumulator (12 * Minute) noController
       (RateLimitedGarbageCollectAggregateCollectionStates exampleAccumulator (11 * Minute)
          noController exampleFresh)
     = RateLimitedGarbageCollectAggregateCollectionStates exampleAccumulator (11 * Minute)
          noController exampleFresh"
proof -
  have swept: "RateLimitedGarbageCollectAggregateCollectionStates exampleAccumulator (11 * Minute)
       noController exampleFresh
     = (garbageCollectAggregateCollectionStates exampleAccumulator (11 * Minute) noController
          exampleFresh)\<lparr>lastAggregateContainerStateGC := 11 * Minute\<rparr>"
    using RateLimitedGC_sweeps_once_per_interval
      [of "11 * Minute" exampleFresh exampleAccumulator noController "12 * Minute" noController]
    by (simp add: example_fresh_gc time_Sub_def Minute_def maxDuration_def minDuration_def)
  have changed: "RateLimitedGarbageCollectAggregateCollectionStates exampleAccumulator (11 * Minute)
       noController exampleFresh \<noteq> exampleFresh"
  proof
    assume "RateLimitedGarbageCollectAggregateCollectionStates exampleAccumulator (11 * Minute)
       noController exampleFresh = exampleFresh"
    then have "lastAggregateContainerStateGC
        (RateLimitedGarbageCollectAggregateCollectionStates exampleAccumulator (11 * Minute)
           noController exampleFresh) = 0"
      by (simp add: example_fresh_gc)
    then show False unfolding swept by (simp add: Minute_def)
  qed
  have second: "RateLimitedGarbageCollectAggregateCollectionStates exampleAccumulator (12 * Minute)
       noController
       (RateLimitedGarbageCollectAggregateCollectionStates exampleAccumulator (11 * Minute)
          noController exampleFresh)
     = RateLimitedGarbageCollectAggregateCollectionStates exampleAccumulator (11 * Minute)
          noController exampleFresh"
    using RateLimitedGC_sweeps_once_per_interval
      [of "11 * Minute" exampleFresh exampleAccumulator noController "12 * Minute" noController]
      changed
    by (auto simp: example_fresh_gc time_Sub_def Minute_def maxDuration_def minDuration_def)
  have skipped: "RateLimitedGarbageCollectAggregateCollectionStates exampleAccumulator (9 * Minute)
       noController exampleFresh = exampleFresh"
    using RateLimitedGC_sweeps_once_per_interval
      [of "9 * Minute" exampleFresh exampleAccumulator noController "12 * Minute" noController]
    by (simp add: example_fresh_gc time_Sub_def Minute_def maxDuration_def minDuration_def)
  from swept skipped second show ?thesis by blast
qed

subsection \<open>Recommendation staleness\<close>

text \<open>
  C7, as the code has it. For a policy without a recommendation that is tracked as missing
  since \<open>t0\<close>: a call at most 30 minutes after \<open>t0\<close> succeeds and changes nothing; a call
  more than 30 minutes after \<open>t0\<close> fails with the stale-recommendation error and sets the
  tracked time to \<open>now\<close>, so that a following call within 30 minutes of it succeeds. A call
  for a policy with a non-empty recommendation removes the tracking entry and succeeds.
\<close>

theorem RecordRecommendation_staleness:
  "(\<not> hasRecommendation vpa \<and> emptyVPAs cluster (vpa_ID vpa) = Some t0
      \<and> now \<le> t0 + 30 * Minute \<longrightarrow>
        RecordRecommendation vpa now cluster = (None, cluster))
   \<and> (\<not> hasRecommendation vpa \<and> emptyVPAs cluster (vpa_ID vpa) = Some t0
      \<and> t0 + 30 * Minute < now \<longrightarrow>
        RecordRecommendation vpa now cluster =
          (Some (MissingRecommendation (vpa_ID vpa) RecommendationMissingMaxDuration),
           cluster\<lparr>emptyVPAs := (emptyVPAs cluster)(vpa_ID vpa \<mapsto> now)\<rparr>)
        \<and> (now' \<le> now + 30 * Minute \<longrightarrow>
             fst (RecordRecommendation vpa now'
                    (snd (RecordRecommendation vpa now cluster))) = None))
   \<and> (hasRecommendation vpa \<longrightarrow>
        RecordRecommendation vpa now cluster =
          (None, cluster\<lparr>emptyVPAs := (emptyVPAs cluster)(vpa_ID vpa := None)\<rparr>))"
  by (auto simp: RecordRecommendation_def time_Before_def time_Add_def
      RecommendationMissingMaxDuration_def)

theorem RecordRecommendation_staleness_witness:
  "RecordRecommendation exampleVpa (29 * Minute) exampleTracked = (None, exampleTracked)
   \<and> RecordRecommendation exampleVpa (31 * Minute) exampleTracked
       = (Some (MissingRecommendation exampleVpaID RecommendationMissingMaxDuration),
          exampleTracked\<lparr>emptyVPAs := (emptyVPAs exampleTracked)(exampleVpaID \<mapsto> 31 * Minute)\<rparr>)
   \<and> fst (RecordRecommendation exampleVpa (32 * Minute)
        (snd (RecordRecommendation exampleVpa (31 * Minute) exampleTracked))) = None"
proof -
  have early: "RecordRecommendation exampleVpa (29 * Minute) exampleTracked = (None, exampleTracked)"
    using RecordRecommendation_staleness [of exampleVpa exampleTracked 0 "29 * Minute"]
    by (simp add: example_tracked Minute_def)
  have late: "RecordRecommendation exampleVpa (31 * Minute) exampleTracked
       = (Some (MissingRecommendation exampleVpaID RecommendationMissingMaxDuration),
          exampleTracked\<lparr>emptyVPAs := (emptyVPAs exampleTracked)(exampleVpaID \<mapsto> 31 * Minute)\<rparr>)
     \<and> fst (RecordRecommendation exampleVpa (32 * Minute)
        (snd (RecordRecommendation exampleVpa (31 * Minute) exampleTracked))) = None"
    using RecordRecommendation_staleness
      [of exampleVpa exampleTracked 0 "31 * Minute" "32 * Minute"]
    by (auto simp: example_tracked Minute_def)
  from early late show ?thesis by blast
qed

text \<open>
  C7 as the claim states it fails at the boundary: tracked as missing since the epoch, the
  call made exactly 30 minutes later returns no error and leaves the tracked time as it is.
\<close>

theorem RecordRecommendation_at_30_minutes_counterexample:
  "emptyVPAs exampleTracked (vpa_ID exampleVpa) = Some 0
   \<and> \<not> hasRecommendation exampleVpa
   \<and> 0 + 30 * Minute \<le> 30 * Minute
   \<and> RecordRecommendation exampleVpa (30 * Minute) exampleTracked = (None, exampleTracked)"
  by (simp add: example_tracked RecordRecommendation_def time_Before_def time_Add_def
      RecommendationMissingMaxDuration_def)

subsection \<open>Usage ingestion\<close>

text \<open>
  C8. \<^verbatim>\<open>AddSample\<close> returns a key error exactly when \<^verbatim>\<open>GetContainer\<close> finds no container for
  the sample's ID, that is when the pod or the container is not registered; it returns the
  sample-rejected error exactly when the container is registered and its accumulator
  rejects the sample, and no error exactly when the accumulator accepts it. \<^verbatim>\<open>RecordOOM\<close>
  returns a key error exactly when the pod or the container is not registered. A key
  error leaves the state as it was, and so does every other error of the two when the
  accumulator leaves the state alone on a call it refuses, as the spec asks of it.
\<close>

theorem AddSample_RecordOOM_errors:
  "((\<exists>k. fst (AddSample containerAddSample sample cluster) = Some (KeyError k))
      \<longleftrightarrow> GetContainer cluster (Container sample) = None)
   \<and> (fst (AddSample containerAddSample sample cluster) = Some SampleDiscarded
      \<longleftrightarrow> (\<exists>container. GetContainer cluster (Container sample) = Some container
            \<and> \<not> fst (containerAddSample container (UsageSample sample) cluster)))
   \<and> (fst (AddSample containerAddSample sample cluster) = None
      \<longleftrightarrow> (\<exists>container. GetContainer cluster (Container sample) = Some container
            \<and> fst (containerAddSample container (UsageSample sample) cluster)))
   \<and> ((\<exists>k. fst (RecordOOM containerRecordOOM containerID timestamp requestedMemory cluster)
              = Some (KeyError k))
      \<longleftrightarrow> GetContainer cluster containerID = None)
   \<and> (GetContainer cluster (Container sample) = None
      \<longrightarrow> snd (AddSample containerAddSample sample cluster) = cluster)
   \<and> (GetContainer cluster containerID = None
      \<longrightarrow> snd (RecordOOM containerRecordOOM containerID timestamp requestedMemory cluster) = cluster)
   \<and> ((\<forall>c s cl. \<not> fst (containerAddSample c s cl) \<longrightarrow> snd (containerAddSample c s cl) = cl)
      \<and> fst (AddSample containerAddSample sample cluster) \<noteq> None
      \<longrightarrow> snd (AddSample containerAddSample sample cluster) = cluster)
   \<and> ((\<forall>c t m cl. fst (containerRecordOOM c t m cl) \<noteq> None
                \<longrightarrow> snd (containerRecordOOM c t m cl) = cl)
      \<and> fst (RecordOOM containerRecordOOM containerID timestamp requestedMemory cluster) \<noteq> None
      \<longrightarrow> snd (RecordOOM containerRecordOOM containerID timestamp requestedMemory cluster) = cluster)"
proof -
  have add_key: "(\<exists>k. fst (AddSample containerAddSample sample cluster) = Some (KeyError k))
      \<longleftrightarrow> GetContainer cluster (Container sample) = None"
    by (auto simp: AddSample_def GetContainer_def split: option.splits prod.splits bool.splits)
  have add_rej: "fst (AddSample containerAddSample sample cluster) = Some SampleDiscarded
      \<longleftrightarrow> (\<exists>container. GetContainer cluster (Container sample) = Some container
            \<and> \<not> fst (containerAddSample container (UsageSample sample) cluster))"
    by (auto simp: AddSample_def GetContainer_def split: option.splits prod.splits bool.splits)
  have add_ok: "fst (AddSample containerAddSample sample cluster) = None
      \<longleftrightarrow> (\<exists>container. GetContainer cluster (Container sample) = Some container
            \<and> fst (containerAddSample container (UsageSample sample) cluster))"
    by (auto simp: AddSample_def GetContainer_def split: option.splits prod.splits bool.splits)
  have oom_key: "(\<exists>k. fst (RecordOOM containerRecordOOM containerID timestamp requestedMemory cluster)
              = Some (KeyError k))
      \<longleftrightarrow> GetContainer cluster containerID = None"
    by (auto simp: RecordOOM_def GetContainer_def split: option.splits prod.splits)
  have add_frame: "GetContainer cluster (Container sample) = None
      \<longrightarrow> snd (AddSample containerAddSample sample cluster) = cluster"
    by (auto simp: AddSample_def GetContainer_def split: option.splits prod.splits bool.splits)
  have oom_frame: "GetContainer cluster containerID = None
      \<longrightarrow> snd (RecordOOM containerRecordOOM containerID timestamp requestedMemory cluster) = cluster"
    by (auto simp: RecordOOM_def GetContainer_def split: option.splits prod.splits)
  have add_contract: "(\<forall>c s cl. \<not> fst (containerAddSample c s cl) \<longrightarrow> snd (containerAddSample c s cl) = cl)
      \<and> fst (AddSample containerAddSample sample cluster) \<noteq> None
      \<longrightarrow> snd (AddSample containerAddSample sample cluster) = cluster"
    by (auto simp: AddSample_def split: option.splits prod.splits bool.splits)
       (metis fst_conv snd_conv)+
  have oom_contract: "(\<forall>c t m cl. fst (containerRecordOOM c t m cl) \<noteq> None
                \<longrightarrow> snd (containerRecordOOM c t m cl) = cl)
      \<and> fst (RecordOOM containerRecordOOM containerID timestamp requestedMemory cluster) \<noteq> None
      \<longrightarrow> snd (RecordOOM containerRecordOOM containerID timestamp requestedMemory cluster) = cluster"
    by (auto simp: RecordOOM_def split: option.splits prod.splits)
       (metis fst_conv snd_conv option.distinct(1))+
  from add_key add_rej add_ok oom_key add_frame oom_frame add_contract oom_contract
  show ?thesis by blast
qed

lemma example_container:
  "GetContainer exampleRunning exampleContainer
     = Some (NewContainerState [(''cpu'', 100)] (ContainerStateAggregatorProxy exampleContainer))"
  "GetContainer (DeletePod examplePod exampleRunning) exampleContainer = None"
  "Container (exampleSample amount) = exampleContainer"
  by (simp_all add: GetContainer_def example_running exampleRunningPod_def exampleContainer_def
      DeletePod_def removePodFromItsVpa_def exampleSample_def)

lemma example_contract:
  "\<forall>c s cl. \<not> fst (exampleAddSample c s cl) \<longrightarrow> snd (exampleAddSample c s cl) = cl"
  "\<forall>c t m cl. fst (exampleRecordOOM c t m cl) \<noteq> None \<longrightarrow> snd (exampleRecordOOM c t m cl) = cl"
  "\<not> fst (exampleAddSample c (UsageSample (exampleSample (- 1))) cl)"
  "fst (exampleAddSample c (UsageSample (exampleSample 150)) cl)"
  by (simp_all add: exampleAddSample_def exampleRecordOOM_def exampleSample_def)

theorem AddSample_RecordOOM_errors_witness:
  "AddSample exampleAddSample (exampleSample (- 1)) exampleRunning
     = (Some SampleDiscarded, exampleRunning)
   \<and> fst (AddSample exampleAddSample (exampleSample 150) exampleRunning) = None
   \<and> (\<exists>k. AddSample exampleAddSample (exampleSample 150) (DeletePod examplePod exampleRunning)
          = (Some (KeyError k), DeletePod examplePod exampleRunning))
   \<and> (\<exists>k. RecordOOM exampleRecordOOM exampleContainer 0 1 (DeletePod examplePod exampleRunning)
          = (Some (KeyError k), DeletePod examplePod exampleRunning))"
proof -
  note rejected = AddSample_RecordOOM_errors
    [of exampleAddSample "exampleSample (- 1)" exampleRunning exampleRecordOOM exampleContainer 0 1]
  note accepted = AddSample_RecordOOM_errors
    [of exampleAddSample "exampleSample 150" exampleRunning exampleRecordOOM exampleContainer 0 1]
  note missing = AddSample_RecordOOM_errors
    [of exampleAddSample "exampleSample 150" "DeletePod examplePod exampleRunning"
        exampleRecordOOM exampleContainer 0 1]
  have "fst (AddSample exampleAddSample (exampleSample (- 1)) exampleRunning) = Some SampleDiscarded"
    using rejected example_container example_contract(3) by simp
  moreover from this
  have "snd (AddSample exampleAddSample (exampleSample (- 1)) exampleRunning) = exampleRunning"
    using rejected example_contract(1) by simp
  ultimately have first: "AddSample exampleAddSample (exampleSample (- 1)) exampleRunning
     = (Some SampleDiscarded, exampleRunning)"
    by (simp add: prod_eq_iff)
  have second: "fst (AddSample exampleAddSample (exampleSample 150) exampleRunning) = None"
    using accepted example_container example_contract(4) by simp
  have third: "\<exists>k. AddSample exampleAddSample (exampleSample 150) (DeletePod examplePod exampleRunning)
          = (Some (KeyError k), DeletePod examplePod exampleRunning)"
    using missing example_container by (simp add: prod_eq_iff)
  have fourth: "\<exists>k. RecordOOM exampleRecordOOM exampleContainer 0 1 (DeletePod examplePod exampleRunning)
          = (Some (KeyError k), DeletePod examplePod exampleRunning)"
    using missing example_container by (simp add: prod_eq_iff)
  from first second third fourth show ?thesis by blast
qed

subsection \<open>Adding and updating a policy\<close>

lemma map_of_map_entry_if:
  "map_of (AList.map_entry k f l) k' = (if k' = k then map_option f (map_of l k) else map_of l k')"
  by (simp add: AList.map_of_map_entry split: option.splits)

lemma matchesAggregation_cong:
  "vpa_ID v' = vpa_ID v \<Longrightarrow> PodSelector v' = PodSelector v \<Longrightarrow>
   matchesAggregation m v' K = matchesAggregation m v K"
  by (simp add: matchesAggregation_def)

lemma UseAggregationIfMatching_frame:
  "vpa_ID (UseAggregationIfMatching m K a v) = vpa_ID v"
  "PodSelector (UseAggregationIfMatching m K a v) = PodSelector v"
  "PodCount (UseAggregationIfMatching m K a v) = PodCount v"
  by (simp_all add: UseAggregationIfMatching_def)

lemma useAll_frame:
  "vpa_ID (useAll m idx v) = vpa_ID v"
  "PodSelector (useAll m idx v) = PodSelector v"
  "PodCount (useAll m idx v) = PodCount v"
  by (induction idx arbitrary: v) (auto simp: UseAggregationIfMatching_frame)

lemma UseAggregationIfMatching_links:
  "map_of (aggregateContainerStates (UseAggregationIfMatching m K' a' v)) K =
     (if K = K' \<and> matchesAggregation m v K' then Some a'
      else map_of (aggregateContainerStates v) K)"
  by (simp add: UseAggregationIfMatching_def AList.update_conv')

lemma useAll_links:
  "distinct (map fst idx) \<Longrightarrow>
   map_of (aggregateContainerStates (useAll m idx v)) K =
     (if matchesAggregation m v K \<and> map_of idx K \<noteq> None then map_of idx K
      else map_of (aggregateContainerStates v) K)"
proof (induction idx arbitrary: v)
  case Nil
  then show ?case by simp
next
  case (Cons p idx)
  obtain K' a' where p: "p = (K', a')" by (cases p)
  let ?v = "UseAggregationIfMatching m K' a' v"
  have m: "matchesAggregation m ?v K = matchesAggregation m v K"
    by (rule matchesAggregation_cong) (simp_all add: UseAggregationIfMatching_frame)
  have notin: "map_of idx K' = None"
    using Cons.prems p by (simp add: map_of_eq_None_iff)
  have d: "distinct (map fst idx)" using Cons.prems by simp
  have step: "map_of (aggregateContainerStates (useAll m (p # idx) v)) K =
     (if matchesAggregation m v K \<and> map_of idx K \<noteq> None then map_of idx K
      else if K = K' \<and> matchesAggregation m v K' then Some a'
      else map_of (aggregateContainerStates v) K)"
    unfolding p useAll.simps Cons.IH [OF d] m UseAggregationIfMatching_links ..
  show ?case
  proof (cases "K = K'")
    case True
    then show ?thesis unfolding step using notin p by auto
  next
    case False
    then show ?thesis unfolding step using p by auto
  qed
qed

lemma refreshVpa_frame:
  "vpa_ID (refreshVpa obj v) = vpa_ID v"
  "PodSelector (refreshVpa obj v) = PodSelector v"
  "PodCount (refreshVpa obj v) = PodCount v"
  "aggregateContainerStates (refreshVpa obj v) = aggregateContainerStates v"
  by (simp_all add: refreshVpa_def Let_def SetAPIVersion_def SetResourcePolicy_def SetUpdateMode_def)

lemma refreshVpa_fields:
  "TargetRef (refreshVpa obj v) = obj_TargetRef obj"
  "Annotations (refreshVpa obj v) = obj_Annotations obj"
  "Conditions (refreshVpa obj v) = conditionsOf (obj_Conditions obj) Map.empty"
  "Recommendation (refreshVpa obj v) =
     (if conditionStatus (conditionsOf (obj_Conditions obj) Map.empty) RecommendationProvided
           = ConditionTrue
      then obj_Recommendation obj else None)"
  "UpdateMode (refreshVpa obj v) = obj_UpdatePolicy obj"
  "ResourcePolicy (refreshVpa obj v) = obj_ResourcePolicy obj"
  "APIVersion (refreshVpa obj v) = obj_Version obj"
  by (simp_all add: refreshVpa_def Let_def SetAPIVersion_def SetResourcePolicy_def SetUpdateMode_def)

text \<open>
  The loop over the object's conditions keeps, for each type, the last condition of that
  type; the recommendation is taken when the last RecommendationProvided condition is true.
\<close>

lemma find_snoc:
  "find P (xs @ [x]) = (case find P xs of None \<Rightarrow> (if P x then Some x else None) | Some y \<Rightarrow> Some y)"
  by (induction xs) simp_all

lemma conditionsOf_last:
  "conditionsOf cs m t =
     (case find (\<lambda>c. cond_Type c = t) (rev cs) of None \<Rightarrow> m t | Some c \<Rightarrow> Some c)"
proof (induction cs arbitrary: m)
  case Nil
  then show ?case by simp
next
  case (Cons c cs)
  show ?case
    by (simp add: Cons.IH find_snoc split: option.splits)
qed

lemma refreshVpa_conditions:
  "Conditions (refreshVpa obj v) t = find (\<lambda>c. cond_Type c = t) (rev (obj_Conditions obj))"
  by (simp add: refreshVpa_fields conditionsOf_last split: option.splits)

lemma refreshVpa_recommendation:
  "Recommendation (refreshVpa obj v) =
     (case find (\<lambda>c. cond_Type c = RecommendationProvided) (rev (obj_Conditions obj)) of
        None \<Rightarrow> None
      | Some c \<Rightarrow> if cond_Status c = ConditionTrue then obj_Recommendation obj else None)"
  by (simp add: refreshVpa_fields conditionsOf_last conditionStatus_def ConditionTrue_def
      split: option.splits)

lemma refreshVpa_created: "Created (refreshVpa obj v) = Created v"
  by (simp add: refreshVpa_def Let_def SetAPIVersion_def SetResourcePolicy_def SetUpdateMode_def)

lemma AddOrUpdateVpa_same:
  assumes "map_of (vpas cluster) (VpaID (obj_Namespace obj) (obj_Name obj)) = Some old"
    and "sel_String (PodSelector old) = sel_String selector"
  shows "AddOrUpdateVpa E obj selector cluster =
    (None, cluster\<lparr>vpas := AList.map_entry (VpaID (obj_Namespace obj) (obj_Name obj))
              (refreshVpa obj) (vpas cluster)\<rparr>)"
  using assms by (simp add: AddOrUpdateVpa_def Let_def)

lemma AddOrUpdateVpa_new:
  assumes "map_of (vpas cluster) (VpaID (obj_Namespace obj) (obj_Name obj)) = None"
  shows "AddOrUpdateVpa E obj selector cluster =
    (None, (createVpa (VpaID (obj_Namespace obj) (obj_Name obj)) selector
              (obj_CreationTimestamp obj) cluster)
       \<lparr>vpas := AList.map_entry (VpaID (obj_Namespace obj) (obj_Name obj)) (refreshVpa obj)
          (vpas (createVpa (VpaID (obj_Namespace obj) (obj_Name obj)) selector
              (obj_CreationTimestamp obj) cluster))\<rparr>)"
  using assms by (simp add: AddOrUpdateVpa_def Let_def)

lemma DeleteVpa_present:
  assumes "map_of (vpas cluster) vpaID = Some old"
  shows "DeleteVpa E vpaID cluster =
    (None, cluster\<lparr>vpas := AList.delete vpaID (vpas cluster),
              emptyVPAs := (emptyVPAs cluster)(vpaID := None),
              heap := markAll E (aggregateContainerStates old) (heap cluster)\<rparr>)"
  using assms by (simp add: DeleteVpa_def)

lemma AddOrUpdateVpa_changed:
  assumes "map_of (vpas cluster) (VpaID (obj_Namespace obj) (obj_Name obj)) = Some old"
    and "sel_String (PodSelector old) \<noteq> sel_String selector"
  shows "AddOrUpdateVpa E obj selector cluster =
    AddOrUpdateVpa E obj selector
      (snd (DeleteVpa E (VpaID (obj_Namespace obj) (obj_Name obj)) cluster))"
proof -
  let ?id = "VpaID (obj_Namespace obj) (obj_Name obj)"
  let ?c = "snd (DeleteVpa E ?id cluster)"
  have absent: "map_of (vpas ?c) ?id = None"
    by (simp add: DeleteVpa_present [OF assms(1)] AList.delete_conv')
  show ?thesis
    unfolding AddOrUpdateVpa_new [OF absent]
    using assms by (simp add: AddOrUpdateVpa_def Let_def DeleteVpa_present [OF assms(1)])
qed

lemma GetMatchingPods_cong:
  "vpa_ID v' = vpa_ID v \<Longrightarrow> PodSelector v' = PodSelector v \<Longrightarrow> pods c' = pods c \<Longrightarrow>
   labelSetMap c' = labelSetMap c \<Longrightarrow> GetMatchingPods v' c' = GetMatchingPods v c"
  by (simp add: GetMatchingPods_def)

lemma createVpa_entry:
  assumes "distinct (map fst (aggregateStateMap c))"
  shows "\<exists>vpa. map_of (vpas (createVpa vpaID selector created c)) vpaID = Some vpa
     \<and> vpa_ID vpa = vpaID \<and> PodSelector vpa = selector
     \<and> (\<forall>K. map_of (aggregateContainerStates vpa) K =
            (if matchesAggregation (labelSetMap c) vpa K then map_of (aggregateStateMap c) K
             else None))
     \<and> PodCount vpa = int (length (GetMatchingPods vpa c))"
proof -
  let ?v = "useAll (labelSetMap c) (aggregateStateMap c) (NewVpa vpaID selector created)"
  let ?vpa = "?v\<lparr>PodCount := int (length (GetMatchingPods ?v c))\<rparr>"
  have entry: "map_of (vpas (createVpa vpaID selector created c)) vpaID = Some ?vpa"
    by (simp add: createVpa_def Let_def AList.update_conv')
  have ids: "vpa_ID ?vpa = vpaID" "PodSelector ?vpa = selector"
    by (simp_all add: useAll_frame NewVpa_def)
  have m: "matchesAggregation (labelSetMap c) ?vpa K
      = matchesAggregation (labelSetMap c) (NewVpa vpaID selector created) K" for K
    by (rule matchesAggregation_cong) (simp_all add: useAll_frame)
  have links: "map_of (aggregateContainerStates ?vpa) K =
            (if matchesAggregation (labelSetMap c) ?vpa K then map_of (aggregateStateMap c) K
             else None)" for K
    unfolding m by (auto simp: useAll_links [OF assms] NewVpa_def)
  have count: "PodCount ?vpa = int (length (GetMatchingPods ?vpa c))"
    by (simp add: GetMatchingPods_def)
  from entry ids links count show ?thesis by blast
qed

lemma createVpa_frame:
  "pods (createVpa vpaID selector created c) = pods c"
  "aggregateStateMap (createVpa vpaID selector created c) = aggregateStateMap c"
  "labelSetMap (createVpa vpaID selector created c) = labelSetMap c"
  "heap (createVpa vpaID selector created c) = heap c"
  "k \<noteq> vpaID \<Longrightarrow> map_of (vpas (createVpa vpaID selector created c)) k = map_of (vpas c) k"
  by (simp_all add: createVpa_def Let_def AList.update_conv')

lemma AddOrUpdateVpa_fresh_entry:
  assumes "map_of (vpas c) (VpaID (obj_Namespace obj) (obj_Name obj)) = None"
    and "distinct (map fst (aggregateStateMap c))"
  shows "\<exists>vpa. map_of (vpas (snd (AddOrUpdateVpa E obj selector c)))
           (VpaID (obj_Namespace obj) (obj_Name obj)) = Some (refreshVpa obj vpa)
     \<and> vpa_ID vpa = VpaID (obj_Namespace obj) (obj_Name obj) \<and> PodSelector vpa = selector
     \<and> (\<forall>K. map_of (aggregateContainerStates vpa) K =
            (if matchesAggregation (labelSetMap c) vpa K then map_of (aggregateStateMap c) K
             else None))
     \<and> PodCount vpa = int (length (GetMatchingPods vpa c))"
  using createVpa_entry [OF assms(2), of "VpaID (obj_Namespace obj) (obj_Name obj)" selector
      "obj_CreationTimestamp obj"]
  by (auto simp: AddOrUpdateVpa_new [OF assms(1)] map_of_map_entry_if)

lemma AddOrUpdateVpa_no_error: "fst (AddOrUpdateVpa E obj selector cluster) = None"
proof (cases "map_of (vpas cluster) (VpaID (obj_Namespace obj) (obj_Name obj))")
  case None
  then show ?thesis by (simp add: AddOrUpdateVpa_new)
next
  case (Some old)
  show ?thesis
  proof (cases "sel_String (PodSelector old) = sel_String selector")
    case True
    then show ?thesis by (simp add: AddOrUpdateVpa_same [OF Some])
  next
    case False
    have "map_of (vpas (snd (DeleteVpa E (VpaID (obj_Namespace obj) (obj_Name obj)) cluster)))
        (VpaID (obj_Namespace obj) (obj_Name obj)) = None"
      by (simp add: DeleteVpa_present [OF Some] AList.delete_conv')
    then show ?thesis
      unfolding AddOrUpdateVpa_changed [OF Some False] by (simp add: AddOrUpdateVpa_new)
  qed
qed

lemma AddOrUpdateVpa_frame:
  "pods (snd (AddOrUpdateVpa E obj selector cluster)) = pods cluster"
  "aggregateStateMap (snd (AddOrUpdateVpa E obj selector cluster)) = aggregateStateMap cluster"
  "labelSetMap (snd (AddOrUpdateVpa E obj selector cluster)) = labelSetMap cluster"
  "k \<noteq> VpaID (obj_Namespace obj) (obj_Name obj) \<Longrightarrow>
     map_of (vpas (snd (AddOrUpdateVpa E obj selector cluster))) k = map_of (vpas cluster) k"
proof -
  let ?id = "VpaID (obj_Namespace obj) (obj_Name obj)"
  have absent: "pods (snd (AddOrUpdateVpa E obj selector c)) = pods c
      \<and> aggregateStateMap (snd (AddOrUpdateVpa E obj selector c)) = aggregateStateMap c
      \<and> labelSetMap (snd (AddOrUpdateVpa E obj selector c)) = labelSetMap c
      \<and> (k \<noteq> ?id \<longrightarrow> map_of (vpas (snd (AddOrUpdateVpa E obj selector c))) k = map_of (vpas c) k)"
    if "map_of (vpas c) ?id = None" for c :: "'a clusterState"
    by (simp add: AddOrUpdateVpa_new [OF that] createVpa_frame map_of_map_entry_if)
  have all: "pods (snd (AddOrUpdateVpa E obj selector cluster)) = pods cluster
      \<and> aggregateStateMap (snd (AddOrUpdateVpa E obj selector cluster)) = aggregateStateMap cluster
      \<and> labelSetMap (snd (AddOrUpdateVpa E obj selector cluster)) = labelSetMap cluster
      \<and> (k \<noteq> ?id \<longrightarrow> map_of (vpas (snd (AddOrUpdateVpa E obj selector cluster))) k
            = map_of (vpas cluster) k)"
  proof (cases "map_of (vpas cluster) ?id")
    case None
    then show ?thesis by (rule absent)
  next
    case (Some old)
    show ?thesis
    proof (cases "sel_String (PodSelector old) = sel_String selector")
      case True
      then show ?thesis by (simp add: AddOrUpdateVpa_same [OF Some] map_of_map_entry_if)
    next
      case False
      have gone: "map_of (vpas (snd (DeleteVpa E ?id cluster))) ?id = None"
        by (simp add: DeleteVpa_present [OF Some] AList.delete_conv')
      show ?thesis
        unfolding AddOrUpdateVpa_changed [OF Some False]
        using absent [OF gone]
        by (simp add: DeleteVpa_present [OF Some] AList.delete_conv')
    qed
  qed
  from all show "pods (snd (AddOrUpdateVpa E obj selector cluster)) = pods cluster"
    "aggregateStateMap (snd (AddOrUpdateVpa E obj selector cluster)) = aggregateStateMap cluster"
    "labelSetMap (snd (AddOrUpdateVpa E obj selector cluster)) = labelSetMap cluster"
    "k \<noteq> ?id \<Longrightarrow> map_of (vpas (snd (AddOrUpdateVpa E obj selector cluster))) k = map_of (vpas cluster) k"
    by simp_all
qed

lemma AddOrUpdateVpa_created_entry:
  assumes "distinct (map fst (aggregateStateMap cluster))"
    and "\<not> (\<exists>old. map_of (vpas cluster) (VpaID (obj_Namespace obj) (obj_Name obj)) = Some old
              \<and> sel_String (PodSelector old) = sel_String selector)"
  shows "\<exists>vpa. map_of (vpas (snd (AddOrUpdateVpa E obj selector cluster)))
           (VpaID (obj_Namespace obj) (obj_Name obj)) = Some (refreshVpa obj vpa)
     \<and> vpa_ID vpa = VpaID (obj_Namespace obj) (obj_Name obj) \<and> PodSelector vpa = selector
     \<and> (\<forall>K. map_of (aggregateContainerStates vpa) K =
            (if matchesAggregation (labelSetMap cluster) vpa K
             then map_of (aggregateStateMap cluster) K else None))
     \<and> PodCount vpa = int (length (GetMatchingPods vpa cluster))"
proof (cases "map_of (vpas cluster) (VpaID (obj_Namespace obj) (obj_Name obj))")
  case None
  then show ?thesis by (rule AddOrUpdateVpa_fresh_entry [OF _ assms(1)])
next
  case (Some old)
  let ?id = "VpaID (obj_Namespace obj) (obj_Name obj)"
  let ?c = "snd (DeleteVpa E ?id cluster)"
  have diff: "sel_String (PodSelector old) \<noteq> sel_String selector"
    using assms(2) Some by simp
  have gone: "map_of (vpas ?c) ?id = None"
    by (simp add: DeleteVpa_present [OF Some] AList.delete_conv')
  have same: "aggregateStateMap ?c = aggregateStateMap cluster" "labelSetMap ?c = labelSetMap cluster"
    "pods ?c = pods cluster"
    by (simp_all add: DeleteVpa_present [OF Some])
  have d: "distinct (map fst (aggregateStateMap ?c))" using assms(1) same by simp
  have g: "GetMatchingPods v ?c = GetMatchingPods v cluster" for v
    by (rule GetMatchingPods_cong) (simp_all add: same)
  show ?thesis
    unfolding AddOrUpdateVpa_changed [OF Some diff]
    using AddOrUpdateVpa_fresh_entry [OF gone d, of E selector]
    by (simp add: same g cong: if_cong)
qed

text \<open>
  C9. \<^verbatim>\<open>AddOrUpdateVpa\<close> never returns an error. When a policy with the ID exists and the
  string form of its selector differs, the call is \<^verbatim>\<open>DeleteVpa\<close>, which succeeds and removes
  the policy, followed by the same call on the state without it. When the string forms
  agree, the registered policy is kept and refreshed. A policy that is created or
  recreated, in a state whose index has one entry per key, has the given ID and selector,
  is linked to exactly the index entries whose key matches it, and counts the pods that
  \<^verbatim>\<open>GetMatchingPods\<close> returns. In every case the registered policy has the target
  reference, annotations, update mode, resource policy and API version of the object; its
  conditions map gives, for each condition type, the last condition of that type in the
  object's status and nothing for a type that does not occur there; and its
  recommendation is the object's when the last RecommendationProvided condition of the
  object has status True, and none otherwise. A policy that is kept keeps its ID,
  selector, creation time, links and pod count. No other policy, no pod and no index
  entry changes.
\<close>

theorem AddOrUpdateVpa_creates_or_refreshes:
  "fst (AddOrUpdateVpa E obj selector cluster) = None
   \<and> (\<forall>old. map_of (vpas cluster) (VpaID (obj_Namespace obj) (obj_Name obj)) = Some old
          \<and> sel_String (PodSelector old) \<noteq> sel_String selector \<longrightarrow>
        fst (DeleteVpa E (VpaID (obj_Namespace obj) (obj_Name obj)) cluster) = None
        \<and> map_of (vpas (snd (DeleteVpa E (VpaID (obj_Namespace obj) (obj_Name obj)) cluster)))
             (VpaID (obj_Namespace obj) (obj_Name obj)) = None
        \<and> AddOrUpdateVpa E obj selector cluster =
            AddOrUpdateVpa E obj selector
              (snd (DeleteVpa E (VpaID (obj_Namespace obj) (obj_Name obj)) cluster)))
   \<and> (\<forall>old. map_of (vpas cluster) (VpaID (obj_Namespace obj) (obj_Name obj)) = Some old
          \<and> sel_String (PodSelector old) = sel_String selector \<longrightarrow>
        map_of (vpas (snd (AddOrUpdateVpa E obj selector cluster)))
          (VpaID (obj_Namespace obj) (obj_Name obj)) = Some (refreshVpa obj old)
        \<and> vpa_ID (refreshVpa obj old) = vpa_ID old
        \<and> PodSelector (refreshVpa obj old) = PodSelector old
        \<and> Created (refreshVpa obj old) = Created old
        \<and> aggregateContainerStates (refreshVpa obj old) = aggregateContainerStates old
        \<and> PodCount (refreshVpa obj old) = PodCount old)
   \<and> (distinct (map fst (aggregateStateMap cluster))
       \<and> \<not> (\<exists>old. map_of (vpas cluster) (VpaID (obj_Namespace obj) (obj_Name obj)) = Some old
              \<and> sel_String (PodSelector old) = sel_String selector) \<longrightarrow>
        (\<exists>vpa. map_of (vpas (snd (AddOrUpdateVpa E obj selector cluster)))
                 (VpaID (obj_Namespace obj) (obj_Name obj)) = Some vpa
           \<and> vpa_ID vpa = VpaID (obj_Namespace obj) (obj_Name obj) \<and> PodSelector vpa = selector
           \<and> (\<forall>K. map_of (aggregateContainerStates vpa) K =
                  (if matchesAggregation (labelSetMap cluster) vpa K
                   then map_of (aggregateStateMap cluster) K else None))
           \<and> PodCount vpa = int (length (GetMatchingPods vpa cluster))))
   \<and> (\<exists>vpa. map_of (vpas (snd (AddOrUpdateVpa E obj selector cluster)))
               (VpaID (obj_Namespace obj) (obj_Name obj)) = Some vpa
         \<and> TargetRef vpa = obj_TargetRef obj
         \<and> Annotations vpa = obj_Annotations obj
         \<and> (\<forall>t. Conditions vpa t
                  = find (\<lambda>condition. cond_Type condition = t) (rev (obj_Conditions obj)))
         \<and> Recommendation vpa =
             (case find (\<lambda>condition. cond_Type condition = RecommendationProvided)
                     (rev (obj_Conditions obj)) of
                None \<Rightarrow> None
              | Some condition \<Rightarrow>
                  if cond_Status condition = ConditionTrue then obj_Recommendation obj else None)
         \<and> UpdateMode vpa = obj_UpdatePolicy obj
         \<and> ResourcePolicy vpa = obj_ResourcePolicy obj
         \<and> APIVersion vpa = obj_Version obj)
   \<and> (\<forall>k. k \<noteq> VpaID (obj_Namespace obj) (obj_Name obj) \<longrightarrow>
         map_of (vpas (snd (AddOrUpdateVpa E obj selector cluster))) k = map_of (vpas cluster) k)
   \<and> pods (snd (AddOrUpdateVpa E obj selector cluster)) = pods cluster
   \<and> aggregateStateMap (snd (AddOrUpdateVpa E obj selector cluster)) = aggregateStateMap cluster"
proof -
  let ?id = "VpaID (obj_Namespace obj) (obj_Name obj)"
  let ?c' = "snd (AddOrUpdateVpa E obj selector cluster)"
  have changed: "fst (DeleteVpa E ?id cluster) = None
        \<and> map_of (vpas (snd (DeleteVpa E ?id cluster))) ?id = None
        \<and> AddOrUpdateVpa E obj selector cluster =
            AddOrUpdateVpa E obj selector (snd (DeleteVpa E ?id cluster))"
    if "map_of (vpas cluster) ?id = Some old" "sel_String (PodSelector old) \<noteq> sel_String selector"
    for old
    using AddOrUpdateVpa_changed [OF that, of E]
    by (simp add: DeleteVpa_present [OF that(1)] AList.delete_conv')
  have same: "map_of (vpas ?c') ?id = Some (refreshVpa obj old)"
    if "map_of (vpas cluster) ?id = Some old" "sel_String (PodSelector old) = sel_String selector"
    for old
    by (simp add: AddOrUpdateVpa_same [OF that] map_of_map_entry_if that(1))
  have created: "\<exists>vpa. map_of (vpas ?c') ?id = Some vpa
           \<and> vpa_ID vpa = ?id \<and> PodSelector vpa = selector
           \<and> (\<forall>K. map_of (aggregateContainerStates vpa) K =
                  (if matchesAggregation (labelSetMap cluster) vpa K
                   then map_of (aggregateStateMap cluster) K else None))
           \<and> PodCount vpa = int (length (GetMatchingPods vpa cluster))"
    if d: "distinct (map fst (aggregateStateMap cluster))"
      and n: "\<not> (\<exists>old. map_of (vpas cluster) ?id = Some old
              \<and> sel_String (PodSelector old) = sel_String selector)"
  proof -
    obtain v where v: "map_of (vpas ?c') ?id = Some (refreshVpa obj v)"
      "vpa_ID v = ?id" "PodSelector v = selector"
      "\<forall>K. map_of (aggregateContainerStates v) K =
            (if matchesAggregation (labelSetMap cluster) v K
             then map_of (aggregateStateMap cluster) K else None)"
      "PodCount v = int (length (GetMatchingPods v cluster))"
      using AddOrUpdateVpa_created_entry [OF d n, of E] by blast
    have m: "matchesAggregation (labelSetMap cluster) (refreshVpa obj v) K
        = matchesAggregation (labelSetMap cluster) v K" for K
      by (rule matchesAggregation_cong) (simp_all add: refreshVpa_frame)
    have g: "GetMatchingPods (refreshVpa obj v) cluster = GetMatchingPods v cluster"
      by (rule GetMatchingPods_cong) (simp_all add: refreshVpa_frame)
    show ?thesis
      using v by (simp add: refreshVpa_frame m g cong: if_cong)
  qed
  have refreshed: "\<exists>vpa. map_of (vpas ?c') ?id = Some vpa
         \<and> TargetRef vpa = obj_TargetRef obj
         \<and> Annotations vpa = obj_Annotations obj
         \<and> (\<forall>t. Conditions vpa t
                  = find (\<lambda>condition. cond_Type condition = t) (rev (obj_Conditions obj)))
         \<and> Recommendation vpa =
             (case find (\<lambda>condition. cond_Type condition = RecommendationProvided)
                     (rev (obj_Conditions obj)) of
                None \<Rightarrow> None
              | Some condition \<Rightarrow>
                  if cond_Status condition = ConditionTrue then obj_Recommendation obj else None)
         \<and> UpdateMode vpa = obj_UpdatePolicy obj
         \<and> ResourcePolicy vpa = obj_ResourcePolicy obj
         \<and> APIVersion vpa = obj_Version obj"
  proof -
    have "\<exists>v. map_of (vpas ?c') ?id = Some (refreshVpa obj v)"
    proof (cases "map_of (vpas cluster) ?id")
      case None
      then show ?thesis
        by (auto simp: AddOrUpdateVpa_new createVpa_def Let_def map_of_map_entry_if
            AList.update_conv')
    next
      case (Some old)
      show ?thesis
      proof (cases "sel_String (PodSelector old) = sel_String selector")
        case True
        then show ?thesis using same [OF Some True] by blast
      next
        case False
        have gone: "map_of (vpas (snd (DeleteVpa E ?id cluster))) ?id = None"
          by (simp add: DeleteVpa_present [OF Some] AList.delete_conv')
        show ?thesis
          unfolding AddOrUpdateVpa_changed [OF Some False]
          by (auto simp: AddOrUpdateVpa_new [OF gone] createVpa_def Let_def map_of_map_entry_if
              AList.update_conv')
      qed
    qed
    then obtain v where "map_of (vpas ?c') ?id = Some (refreshVpa obj v)" ..
    then show ?thesis
      by (simp add: refreshVpa_fields(1,2,5,6,7) refreshVpa_conditions
          refreshVpa_recommendation)
  qed
  from changed same created refreshed show ?thesis
    by (simp add: AddOrUpdateVpa_no_error AddOrUpdateVpa_frame refreshVpa_frame
        refreshVpa_created)
qed

theorem AddOrUpdateVpa_creates_or_refreshes_witness:
  "fst (AddOrUpdateVpa exampleAccumulator exampleObject exampleSelector exampleRunning) = None
   \<and> (\<exists>vpa. map_of (vpas (snd (AddOrUpdateVpa exampleAccumulator exampleObject exampleSelector
                 exampleRunning))) exampleVpaID = Some vpa
         \<and> map_of (aggregateContainerStates vpa) exampleKey = Some 0
         \<and> PodCount vpa = 1 \<and> UpdateMode vpa = Some ''Auto'')
   \<and> AddOrUpdateVpa exampleAccumulator exampleObject otherSelector exampleLinked
       = AddOrUpdateVpa exampleAccumulator exampleObject otherSelector
           (snd (DeleteVpa exampleAccumulator exampleVpaID exampleLinked))
   \<and> (\<exists>vpa. map_of (vpas (snd (AddOrUpdateVpa exampleAccumulator exampleReportedObject
                 exampleSelector exampleLinked))) exampleVpaID = Some vpa
         \<and> Conditions vpa RecommendationProvided
             = Some \<lparr>cond_Type = RecommendationProvided, cond_Status = ConditionTrue\<rparr>
         \<and> Conditions vpa ''ConfigUnsupported'' = None
         \<and> Recommendation vpa = Some exampleRecommendation
         \<and> PodCount vpa = 1)"
proof -
  have id: "VpaID (obj_Namespace exampleObject) (obj_Name exampleObject) = exampleVpaID"
    by (simp add: exampleObject_def exampleVpaID_def)
  have id': "VpaID (obj_Namespace exampleReportedObject) (obj_Name exampleReportedObject)
      = exampleVpaID"
    by (simp add: exampleReportedObject_def exampleObject_def exampleVpaID_def)
  note reported = AddOrUpdateVpa_creates_or_refreshes
    [of exampleAccumulator exampleReportedObject exampleSelector exampleLinked, unfolded id']
  have kept: "map_of (vpas exampleLinked) exampleVpaID = Some exampleLinkedVpa
      \<and> sel_String (PodSelector exampleLinkedVpa) = sel_String exampleSelector"
    by (simp add: example_linked exampleLinkedVpa_def refreshVpa_frame NewVpa_def)
  then have entry: "map_of (vpas (snd (AddOrUpdateVpa exampleAccumulator exampleReportedObject
        exampleSelector exampleLinked))) exampleVpaID
        = Some (refreshVpa exampleReportedObject exampleLinkedVpa)"
    and count': "PodCount (refreshVpa exampleReportedObject exampleLinkedVpa)
        = PodCount exampleLinkedVpa"
    using reported by blast+
  obtain rvpa where rvpa:
    "map_of (vpas (snd (AddOrUpdateVpa exampleAccumulator exampleReportedObject
        exampleSelector exampleLinked))) exampleVpaID = Some rvpa"
    "\<forall>t. Conditions rvpa t
        = find (\<lambda>condition. cond_Type condition = t) (rev (obj_Conditions exampleReportedObject))"
    "Recommendation rvpa =
       (case find (\<lambda>condition. cond_Type condition = RecommendationProvided)
               (rev (obj_Conditions exampleReportedObject)) of
          None \<Rightarrow> None
        | Some condition \<Rightarrow>
            if cond_Status condition = ConditionTrue
            then obj_Recommendation exampleReportedObject else None)"
    using reported by blast
  have req: "rvpa = refreshVpa exampleReportedObject exampleLinkedVpa"
    using rvpa(1) entry by simp
  have rcond: "Conditions rvpa RecommendationProvided
      = Some \<lparr>cond_Type = RecommendationProvided, cond_Status = ConditionTrue\<rparr>"
    using rvpa(2) by (simp add: exampleReportedObject_def)
  have rnone: "Conditions rvpa ''ConfigUnsupported'' = None"
    using rvpa(2) by (simp add: exampleReportedObject_def RecommendationProvided_def)
  have rrec: "Recommendation rvpa = Some exampleRecommendation"
    using rvpa(3) by (simp add: exampleReportedObject_def)
  have rcount: "PodCount rvpa = 1"
    using count' unfolding req by (simp add: exampleLinkedVpa_def refreshVpa_frame)
  have fourth: "\<exists>vpa. map_of (vpas (snd (AddOrUpdateVpa exampleAccumulator exampleReportedObject
                 exampleSelector exampleLinked))) exampleVpaID = Some vpa
         \<and> Conditions vpa RecommendationProvided
             = Some \<lparr>cond_Type = RecommendationProvided, cond_Status = ConditionTrue\<rparr>
         \<and> Conditions vpa ''ConfigUnsupported'' = None
         \<and> Recommendation vpa = Some exampleRecommendation
         \<and> PodCount vpa = 1"
    using rvpa(1) rcond rnone rrec rcount by blast
  note fresh = AddOrUpdateVpa_creates_or_refreshes
    [of exampleAccumulator exampleObject exampleSelector exampleRunning, unfolded id]
  note changed = AddOrUpdateVpa_creates_or_refreshes
    [of exampleAccumulator exampleObject otherSelector exampleLinked, unfolded id]
  have first: "fst (AddOrUpdateVpa exampleAccumulator exampleObject exampleSelector exampleRunning) = None"
    using fresh by blast
  have "distinct (map fst (aggregateStateMap exampleRunning))
       \<and> \<not> (\<exists>old. map_of (vpas exampleRunning) exampleVpaID = Some old
              \<and> sel_String (PodSelector old) = sel_String exampleSelector)"
    by (simp add: example_running)
  then obtain vpa where vpa:
    "map_of (vpas (snd (AddOrUpdateVpa exampleAccumulator exampleObject exampleSelector
        exampleRunning))) exampleVpaID = Some vpa"
    "vpa_ID vpa = exampleVpaID" "PodSelector vpa = exampleSelector"
    "\<forall>K. map_of (aggregateContainerStates vpa) K =
       (if matchesAggregation (labelSetMap exampleRunning) vpa K
        then map_of (aggregateStateMap exampleRunning) K else None)"
    "PodCount vpa = int (length (GetMatchingPods vpa exampleRunning))"
    using fresh by blast
  have link: "map_of (aggregateContainerStates vpa) exampleKey = Some 0"
    using vpa(4)
    by (simp add: matchesAggregation_def PodLabelsMatchVPA_def Labels_def labelSetMap_get_def
        vpa(2,3) example_running example_defs)
  have count: "PodCount vpa = 1"
    using vpa(5)
    by (simp add: GetMatchingPods_def PodLabelsMatchVPA_def labelSetMap_get_def vpa(2,3)
        example_running exampleRunningPod_def example_defs)
  have mode: "UpdateMode vpa = Some ''Auto''"
    using fresh vpa(1) by (auto simp: exampleObject_def)
  have second: "\<exists>vpa. map_of (vpas (snd (AddOrUpdateVpa exampleAccumulator exampleObject
        exampleSelector exampleRunning))) exampleVpaID = Some vpa
         \<and> map_of (aggregateContainerStates vpa) exampleKey = Some 0
         \<and> PodCount vpa = 1 \<and> UpdateMode vpa = Some ''Auto''"
    using vpa(1) link count mode by blast
  have "map_of (vpas exampleLinked) exampleVpaID = Some exampleLinkedVpa
      \<and> sel_String (PodSelector exampleLinkedVpa) \<noteq> sel_String otherSelector"
    by (simp add: example_linked exampleLinkedVpa_def refreshVpa_frame NewVpa_def
        exampleSelector_def otherSelector_def)
  then have third: "AddOrUpdateVpa exampleAccumulator exampleObject otherSelector exampleLinked
       = AddOrUpdateVpa exampleAccumulator exampleObject otherSelector
           (snd (DeleteVpa exampleAccumulator exampleVpaID exampleLinked))"
    using changed by blast
  from first second third fourth show ?thesis by blast
qed

subsection \<open>The invariants are kept by every operation\<close>

lemma intern_get:
  assumes "\<forall>ls ls'. m (LabelSetString ls) = Some ls' \<longrightarrow> ls' = ls" and "m k \<noteq> None"
  shows "labelSetMap_get (m(LabelSetString ls \<mapsto> ls)) k = labelSetMap_get m k"
proof (cases "k = LabelSetString ls")
  case True
  with assms obtain ls' where "m (LabelSetString ls) = Some ls'" by auto
  with assms(1) have "m (LabelSetString ls) = Some ls" by blast
  with True show ?thesis by (simp add: labelSetMap_get_def)
next
  case False
  then show ?thesis by (simp add: labelSetMap_get_def)
qed

lemma intern_ok:
  assumes "\<forall>ls ls'. m (LabelSetString ls) = Some ls' \<longrightarrow> ls' = ls"
  shows "\<forall>ls' ls''. (m(LabelSetString ls \<mapsto> ls)) (LabelSetString ls') = Some ls'' \<longrightarrow> ls'' = ls'"
  using assms by auto

lemma linksMatch_cong:
  "vpa_ID v' = vpa_ID v \<Longrightarrow> PodSelector v' = PodSelector v \<Longrightarrow>
   aggregateContainerStates v' = aggregateContainerStates v \<Longrightarrow>
   linksMatch m idx v' = linksMatch m idx v"
  by (simp add: linksMatch_def matchesAggregation_def)

lemma linksMatch_intern:
  assumes ok: "\<forall>ls ls'. m (LabelSetString ls) = Some ls' \<longrightarrow> ls' = ls"
    and idx: "\<forall>(K, a) \<in> set idx. m (key_labelSetKey K) \<noteq> None"
    and l: "linksMatch m idx v"
  shows "linksMatch (m(LabelSetString ls \<mapsto> ls)) idx v"
  unfolding linksMatch_def
proof
  fix K
  show "map_of (aggregateContainerStates v) K =
      (if matchesAggregation (m(LabelSetString ls \<mapsto> ls)) v K then map_of idx K else None)"
  proof (cases "map_of idx K")
    case None
    then show ?thesis using l by (simp add: linksMatch_def)
  next
    case (Some a)
    then have "(K, a) \<in> set idx" by (rule map_of_SomeD)
    with idx have "m (key_labelSetKey K) \<noteq> None" by auto
    then have "Labels (m(LabelSetString ls \<mapsto> ls)) K = Labels m K"
      unfolding Labels_def by (rule intern_get [OF ok])
    then have "matchesAggregation (m(LabelSetString ls \<mapsto> ls)) v K = matchesAggregation m v K"
      by (simp add: matchesAggregation_def)
    then show ?thesis using l by (simp add: linksMatch_def)
  qed
qed

lemma GetMatchingPods_podKeys:
  "GetMatchingPods vpa c =
     map fst (filter (matchingKey (labelSetMap c) (vpa_ID vpa) (PodSelector vpa)) (podKeys (pods c)))"
  by (simp add: GetMatchingPods_def podKeys_def matchingKey_def filter_map comp_def
      case_prod_unfold)

lemma podKeys_interned:
  "podsOK c \<Longrightarrow> p \<in> set (podKeys (pods c)) \<Longrightarrow> labelSetMap c (snd p) \<noteq> None"
  by (auto simp: podsOK_def podKeys_def)

lemma matchingKey_intern:
  assumes "\<forall>ls ls'. m (LabelSetString ls) = Some ls' \<longrightarrow> ls' = ls" and "m (snd p) \<noteq> None"
  shows "matchingKey (m(LabelSetString ls \<mapsto> ls)) vpaID selector p = matchingKey m vpaID selector p"
  by (simp add: matchingKey_def intern_get [OF assms])

lemma getLabelSetKey_frame:
  "fst (getLabelSetKey ls c) = LabelSetString ls"
  "pods (snd (getLabelSetKey ls c)) = pods c"
  "vpas (snd (getLabelSetKey ls c)) = vpas c"
  "aggregateStateMap (snd (getLabelSetKey ls c)) = aggregateStateMap c"
  "labelSetMap (snd (getLabelSetKey ls c)) = (labelSetMap c)(LabelSetString ls \<mapsto> ls)"
  by (simp_all add: getLabelSetKey_def Let_def)

lemma getLabelSetKey_linksOK:
  "linksOK c \<Longrightarrow> linksOK (snd (getLabelSetKey ls c))"
  unfolding linksOK_def getLabelSetKey_frame
  by (auto intro: linksMatch_intern)

lemma getLabelSetKey_podsOK:
  "podsOK c \<Longrightarrow> podsOK (snd (getLabelSetKey ls c))"
  unfolding podsOK_def getLabelSetKey_frame by auto

lemma getLabelSetKey_GetMatchingPods:
  assumes "podsOK c" "linksOK c"
  shows "GetMatchingPods vpa (snd (getLabelSetKey ls c)) = GetMatchingPods vpa c"
proof -
  have ok: "\<forall>ls ls'. labelSetMap c (LabelSetString ls) = Some ls' \<longrightarrow> ls' = ls"
    using assms(2) by (simp add: linksOK_def)
  have "filter (matchingKey ((labelSetMap c)(LabelSetString ls \<mapsto> ls)) (vpa_ID vpa) (PodSelector vpa))
          (podKeys (pods c))
      = filter (matchingKey (labelSetMap c) (vpa_ID vpa) (PodSelector vpa)) (podKeys (pods c))"
    by (rule filter_cong [OF refl]) (rule matchingKey_intern [OF ok podKeys_interned [OF assms(1)]])
  then show ?thesis by (simp add: GetMatchingPods_podKeys getLabelSetKey_frame)
qed

lemma getLabelSetKey_countsOK:
  "podsOK c \<Longrightarrow> linksOK c \<Longrightarrow> countsOK c \<Longrightarrow> countsOK (snd (getLabelSetKey ls c))"
  by (simp add: countsOK_def getLabelSetKey_GetMatchingPods) (simp add: getLabelSetKey_frame)

lemma set_map_entry:
  "p \<in> set (AList.map_entry k f l) \<Longrightarrow> p \<in> set l \<or> (\<exists>v. (k, v) \<in> set l \<and> p = (k, f v))"
  by (induction l) (auto split: if_splits)

lemma map_fst_map_entry: "map fst (AList.map_entry k f l) = map fst l"
  by (induction l) auto

lemma podKeys_map_entry:
  "(\<And>p. labelSetKey (f p) = labelSetKey p) \<Longrightarrow> podKeys (AList.map_entry k f ps) = podKeys ps"
  by (induction ps) (auto simp: podKeys_def)

lemma map_fst_podKeys: "map fst (podKeys ps) = map fst ps"
  by (simp add: podKeys_def comp_def case_prod_unfold)

lemma podsOK_map_entry:
  assumes "podsOK c" "\<And>p. ID (f p) = ID p" "\<And>p. labelSetKey (f p) = labelSetKey p"
    "pods c' = AList.map_entry k f (pods c)" "labelSetMap c' = labelSetMap c"
  shows "podsOK c'"
  unfolding podsOK_def assms(4,5) map_fst_map_entry
  using assms(1-3) by (auto simp: podsOK_def dest!: set_map_entry)

lemma update_absent: "map_of l k = None \<Longrightarrow> AList.update k v l = l @ [(k, v)]"
  by (induction l) (auto split: if_splits)

lemma map_ran_set: "p \<in> set (AList.map_ran f l) \<longleftrightarrow> (\<exists>k v. (k, v) \<in> set l \<and> p = (k, f k v))"
  by (induction l) auto

lemma linksMatch_new:
  assumes "linksMatch m idx v" "map_of idx key = None"
  shows "linksMatch m (AList.update key a idx) (UseAggregationIfMatching m key a v)"
proof -
  have mm: "matchesAggregation m (UseAggregationIfMatching m key a v) K = matchesAggregation m v K" for K
    by (rule matchesAggregation_cong) (simp_all add: UseAggregationIfMatching_frame)
  show ?thesis
    unfolding linksMatch_def mm UseAggregationIfMatching_links AList.update_conv'
    using assms by (auto simp: linksMatch_def)
qed

lemma findOrCreate_found:
  assumes "map_of (pods c) (PodID_of cid) = Some pod"
    and "map_of (aggregateStateMap c) (MakeAggregateStateKey pod (ContainerName cid)) = Some a"
  shows "findOrCreateAggregateContainerState E cid c = Some (a, c)"
  using assms
  by (simp add: findOrCreateAggregateContainerState_def aggregateStateKeyForContainerID_def)

lemma findOrCreate_created:
  assumes "map_of (pods c) (PodID_of cid) = Some pod"
    and "map_of (aggregateStateMap c) (MakeAggregateStateKey pod (ContainerName cid)) = None"
  shows "findOrCreateAggregateContainerState E cid c =
    Some (nextAddr c, c
      \<lparr>vpas := AList.map_ran
          (\<lambda>_ vpa. UseAggregationIfMatching (labelSetMap c)
                     (MakeAggregateStateKey pod (ContainerName cid)) (nextAddr c) vpa)
          (vpas c),
       aggregateStateMap := AList.update (MakeAggregateStateKey pod (ContainerName cid))
          (nextAddr c) (aggregateStateMap c),
       heap := (heap c)(nextAddr c := NewAggregateContainerState E),
       nextAddr := Suc (nextAddr c)\<rparr>)"
  using assms
  by (simp add: findOrCreateAggregateContainerState_def aggregateStateKeyForContainerID_def Let_def)

lemma sameCounts_refl: "sameCounts vs vs"
  unfolding sameCounts_def by (rule exI [of _ "\<lambda>_ v. v"]) (simp add: map_ran_id)

lemma sameCounts_trans:
  assumes "sameCounts vs vs'" "sameCounts vs' vs''"
  shows "sameCounts vs vs''"
proof -
  obtain F where F: "vs' = AList.map_ran F vs"
    "\<forall>k v. vpa_ID (F k v) = vpa_ID v \<and> PodSelector (F k v) = PodSelector v \<and> PodCount (F k v) = PodCount v"
    using assms(1) unfolding sameCounts_def by blast
  obtain G where G: "vs'' = AList.map_ran G vs'"
    "\<forall>k v. vpa_ID (G k v) = vpa_ID v \<and> PodSelector (G k v) = PodSelector v \<and> PodCount (G k v) = PodCount v"
    using assms(2) unfolding sameCounts_def by blast
  show ?thesis
    unfolding sameCounts_def
    by (rule exI [of _ "\<lambda>k v. G k (F k v)"]) (simp add: F G map_ran_map_ran)
qed

lemma findOrCreate_result:
  assumes "map_of (pods c) (PodID_of cid) = Some pod"
  shows "\<exists>a c'. findOrCreateAggregateContainerState E cid c = Some (a, c')
     \<and> pods c' = pods c \<and> labelSetMap c' = labelSetMap c
     \<and> map_of (aggregateStateMap c') (MakeAggregateStateKey pod (ContainerName cid)) = Some a
     \<and> (\<forall>K b. map_of (aggregateStateMap c) K = Some b \<longrightarrow> map_of (aggregateStateMap c') K = Some b)
     \<and> sameCounts (vpas c) (vpas c')
     \<and> (linksOK c \<and> labelSetMap c (labelSetKey pod) \<noteq> None \<longrightarrow> linksOK c')"
proof (cases "map_of (aggregateStateMap c) (MakeAggregateStateKey pod (ContainerName cid))")
  case (Some a)
  show ?thesis
    unfolding findOrCreate_found [OF assms Some] using Some by (simp add: sameCounts_refl)
next
  case None
  let ?key = "MakeAggregateStateKey pod (ContainerName cid)"
  let ?F = "\<lambda>(_::VpaID) vpa. UseAggregationIfMatching (labelSetMap c) ?key (nextAddr c) vpa"
  let ?c' = "c\<lparr>vpas := AList.map_ran ?F (vpas c),
       aggregateStateMap := AList.update ?key (nextAddr c) (aggregateStateMap c),
       heap := (heap c)(nextAddr c := NewAggregateContainerState E),
       nextAddr := Suc (nextAddr c)\<rparr>"
  have mono: "\<forall>K b. map_of (aggregateStateMap c) K = Some b \<longrightarrow> map_of (aggregateStateMap ?c') K = Some b"
    using None by (auto simp: AList.update_conv')
  have counts: "sameCounts (vpas c) (vpas ?c')"
    unfolding sameCounts_def
    by (rule exI [of _ ?F]) (simp add: UseAggregationIfMatching_frame)
  have links: "linksOK ?c'" if ok: "linksOK c" and k: "labelSetMap c (labelSetKey pod) \<noteq> None"
  proof -
    have "distinct (map fst (vpas ?c'))"
      using ok by (simp add: linksOK_def)
    moreover have "distinct (map fst (aggregateStateMap ?c'))"
      using ok by (simp add: linksOK_def AList.distinct_update)
    moreover have "\<forall>(K, a) \<in> set (aggregateStateMap ?c'). labelSetMap ?c' (key_labelSetKey K) \<noteq> None"
    proof -
      have "labelSetMap ?c' (key_labelSetKey K) \<noteq> None"
        if in': "(K, a) \<in> set (aggregateStateMap ?c')" for K a
      proof -
        have "(K, a) \<in> set (aggregateStateMap c) \<or> K = ?key"
          using in' None by (auto simp: update_absent)
        then show ?thesis
        proof
          assume "(K, a) \<in> set (aggregateStateMap c)"
          then show ?thesis using ok by (auto simp: linksOK_def)
        next
          assume "K = ?key"
          then show ?thesis using k by (simp add: MakeAggregateStateKey_def)
        qed
      qed
      then show ?thesis by blast
    qed
    moreover have "\<forall>(vpaID, vpa) \<in> set (vpas ?c').
        vpa_ID vpa = vpaID \<and> linksMatch (labelSetMap ?c') (aggregateStateMap ?c') vpa"
    proof -
      have "vpa_ID vpa' = vpaID \<and> linksMatch (labelSetMap ?c') (aggregateStateMap ?c') vpa'"
        if in': "(vpaID, vpa') \<in> set (vpas ?c')" for vpaID vpa'
      proof -
        obtain v where v: "(vpaID, v) \<in> set (vpas c)" "vpa' = ?F vpaID v"
          using in' by (auto simp: map_ran_set)
        have "vpa_ID v = vpaID" "linksMatch (labelSetMap c) (aggregateStateMap c) v"
          using ok v(1) by (auto simp: linksOK_def)
        then show ?thesis
          using v(2) None by (simp add: UseAggregationIfMatching_frame linksMatch_new)
      qed
      then show ?thesis by blast
    qed
    ultimately show ?thesis using ok by (simp add: linksOK_def)
  qed
  show ?thesis
    unfolding findOrCreate_created [OF assms None]
    using mono counts links by (simp add: AList.update_conv')
qed

lemma podsOK_cong:
  "pods c' = pods c \<Longrightarrow> labelSetMap c' = labelSetMap c \<Longrightarrow> podsOK c' = podsOK c"
  by (simp add: podsOK_def)

lemma linksOK_cong:
  "vpas c' = vpas c \<Longrightarrow> aggregateStateMap c' = aggregateStateMap c \<Longrightarrow>
   labelSetMap c' = labelSetMap c \<Longrightarrow> linksOK c' = linksOK c"
  by (simp add: linksOK_def)

lemma podsOK_lookup:
  "podsOK c \<Longrightarrow> map_of (pods c) podID = Some pod \<Longrightarrow>
   ID pod = podID \<and> labelSetMap c (labelSetKey pod) \<noteq> None"
  by (auto simp: podsOK_def dest!: map_of_SomeD)

lemma relinked_frame:
  "ID (relinked name a pod) = ID pod" "labelSetKey (relinked name a pod) = labelSetKey pod"
  "Phase (relinked name a pod) = Phase pod"
  "map fst (Containers (relinked name a pod)) = map fst (Containers pod)"
  "MakeAggregateStateKey (relinked name a pod) n = MakeAggregateStateKey pod n"
  by (simp_all add: relinked_def map_fst_map_entry MakeAggregateStateKey_def)

lemma relinkContainers_Cons:
  "relinkContainers E podID (name # rest) c =
     (case findOrCreateAggregateContainerState E (ContainerID podID name) c of
        None \<Rightarrow> None
      | Some (a, c') \<Rightarrow>
          relinkContainers E podID rest
            (c'\<lparr>pods := AList.map_entry podID (relinked name a) (pods c')\<rparr>))"
  unfolding relinked_def [abs_def] by simp

lemma relinkContainers_result:
  assumes "map_of (pods c) podID = Some pod"
  shows "\<exists>c'. relinkContainers E podID names c = Some c'
     \<and> labelSetMap c' = labelSetMap c
     \<and> map fst (pods c') = map fst (pods c) \<and> podKeys (pods c') = podKeys (pods c)
     \<and> (\<forall>K b. map_of (aggregateStateMap c) K = Some b \<longrightarrow> map_of (aggregateStateMap c') K = Some b)
     \<and> sameCounts (vpas c) (vpas c')
     \<and> (linksOK c \<and> podsOK c \<longrightarrow> linksOK c' \<and> podsOK c')"
  using assms
proof (induction names arbitrary: c pod)
  case Nil
  then show ?case by (simp add: sameCounts_refl)
next
  case (Cons name rest)
  have present: "map_of (pods c) (PodID_of (ContainerID podID name)) = Some pod"
    using Cons.prems by simp
  obtain a c1 where c1: "findOrCreateAggregateContainerState E (ContainerID podID name) c = Some (a, c1)"
    "pods c1 = pods c" "labelSetMap c1 = labelSetMap c"
    "\<forall>K b. map_of (aggregateStateMap c) K = Some b \<longrightarrow> map_of (aggregateStateMap c1) K = Some b"
    "sameCounts (vpas c) (vpas c1)"
    "linksOK c \<and> labelSetMap c (labelSetKey pod) \<noteq> None \<longrightarrow> linksOK c1"
    using findOrCreate_result [OF present, of E] by blast
  let ?c2 = "c1\<lparr>pods := AList.map_entry podID (relinked name a) (pods c1)\<rparr>"
  have pod2: "map_of (pods ?c2) podID = Some (relinked name a pod)"
    using Cons.prems by (simp add: c1(2) map_of_map_entry_if)
  obtain c' where c': "relinkContainers E podID rest ?c2 = Some c'"
    "labelSetMap c' = labelSetMap ?c2"
    "map fst (pods c') = map fst (pods ?c2)" "podKeys (pods c') = podKeys (pods ?c2)"
    "\<forall>K b. map_of (aggregateStateMap ?c2) K = Some b \<longrightarrow> map_of (aggregateStateMap c') K = Some b"
    "sameCounts (vpas ?c2) (vpas c')"
    "linksOK ?c2 \<and> podsOK ?c2 \<longrightarrow> linksOK c' \<and> podsOK c'"
    using Cons.IH [OF pod2] by blast
  have run: "relinkContainers E podID (name # rest) c = Some c'"
    unfolding relinkContainers_Cons by (simp add: c1(1) c'(1))
  have keys: "podKeys (pods ?c2) = podKeys (pods c)" "map fst (pods ?c2) = map fst (pods c)"
    by (simp_all add: c1(2) podKeys_map_entry relinked_frame map_fst_map_entry)
  have counts: "sameCounts (vpas c) (vpas c')"
    using sameCounts_trans [OF c1(5)] c'(6) by simp
  have ok: "linksOK c' \<and> podsOK c'" if "linksOK c" "podsOK c"
  proof -
    have "linksOK c1" using c1(6) that podsOK_lookup [OF that(2) Cons.prems] by blast
    then have l2: "linksOK ?c2" by (simp add: linksOK_cong [of ?c2 c1])
    have "podsOK c1" using that(2) by (simp add: podsOK_cong [OF c1(2,3)])
    then have "podsOK ?c2"
      by (rule podsOK_map_entry [where f = "relinked name a" and k = podID])
        (simp_all add: relinked_frame)
    with l2 c'(7) show ?thesis by blast
  qed
  show ?case
    using run c'(2,3,4,5) c1(3,4) keys counts ok by auto
qed

lemma GetMatchingPods_count:
  "int (length (GetMatchingPods vpa c)) =
     int (length (filter (matchingKey (labelSetMap c) (vpa_ID vpa) (PodSelector vpa))
                    (podKeys (pods c))))"
  by (simp add: GetMatchingPods_podKeys)

lemma count_map_entry:
  "map_of l k = Some v \<Longrightarrow>
   int (length (filter Q (AList.map_entry k f l))) =
     int (length (filter Q l)) - of_bool (Q (k, v)) + of_bool (Q (k, f v))"
  by (induction l) (auto split: if_splits)

lemma count_delete:
  "distinct (map fst l) \<Longrightarrow> map_of l k = Some v \<Longrightarrow>
   int (length (filter Q (AList.delete k l))) = int (length (filter Q l)) - of_bool (Q (k, v))"
proof (induction l)
  case Nil
  then show ?case by simp
next
  case (Cons p l)
  show ?case
  proof (cases "fst p = k")
    case True
    then have "k \<notin> fst ` set l" using Cons.prems(1) by auto
    then have "AList.delete k l = l" by simp
    then show ?thesis using True Cons.prems(2) by (cases p) auto
  next
    case False
    then have "map_of l k = Some v" using Cons.prems(2) by (cases p) auto
    then show ?thesis using False Cons.IH Cons.prems(1) by (cases p) auto
  qed
qed

lemma podKeys_map_entry_key:
  "(\<And>p. labelSetKey (f p) = k') \<Longrightarrow>
   podKeys (AList.map_entry podID f ps) = AList.map_entry podID (\<lambda>_. k') (podKeys ps)"
  by (induction ps) (auto simp: podKeys_def)

lemma podKeys_delete: "podKeys (AList.delete podID ps) = AList.delete podID (podKeys ps)"
  by (induction ps) (auto simp: podKeys_def)

lemma podKeys_append: "podKeys (ps @ [(podID, pod)]) = podKeys ps @ [(podID, labelSetKey pod)]"
  by (simp add: podKeys_def)

lemma map_of_podKeys: "map_of (podKeys ps) podID = map_option labelSetKey (map_of ps podID)"
  by (induction ps) (auto simp: podKeys_def)

lemma sameCounts_entry:
  assumes "sameCounts vs vs'" "(vpaID, v') \<in> set vs'"
  shows "\<exists>v. (vpaID, v) \<in> set vs \<and> vpa_ID v' = vpa_ID v \<and> PodSelector v' = PodSelector v
     \<and> PodCount v' = PodCount v"
proof -
  obtain F where F: "vs' = AList.map_ran F vs"
    "\<forall>k v. vpa_ID (F k v) = vpa_ID v \<and> PodSelector (F k v) = PodSelector v \<and> PodCount (F k v) = PodCount v"
    using assms(1) unfolding sameCounts_def by blast
  obtain v where v: "(vpaID, v) \<in> set vs" "v' = F vpaID v"
    using assms(2) unfolding F(1) map_ran_set by blast
  show ?thesis
    by (rule exI [of _ v]) (simp add: v F(2))
qed

lemma sameCounts_keys: "sameCounts vs vs' \<Longrightarrow> map fst vs' = map fst vs"
  unfolding sameCounts_def by auto

lemma countsOK_sameCounts:
  assumes "countsOK c" "sameCounts (vpas c) (vpas c')" "podKeys (pods c') = podKeys (pods c)"
    "labelSetMap c' = labelSetMap c"
  shows "countsOK c'"
  unfolding countsOK_def
proof (clarify)
  fix vpaID v'
  assume "(vpaID, v') \<in> set (vpas c')"
  then obtain v where v: "(vpaID, v) \<in> set (vpas c)" "vpa_ID v' = vpa_ID v"
    "PodSelector v' = PodSelector v" "PodCount v' = PodCount v"
    using sameCounts_entry [OF assms(2)] by blast
  have "PodCount v = int (length (GetMatchingPods v c))"
    using assms(1) v(1) by (auto simp: countsOK_def)
  then show "PodCount v' = int (length (GetMatchingPods v' c'))"
    by (simp add: GetMatchingPods_count v assms(3,4))
qed

text \<open>A change of the counts by what one pod contributes, next to the same change of the pods.\<close>

lemma map_ran_shift:
  assumes "(vpaID, v') \<in> set (AList.map_ran
      (\<lambda>_ v. if P v then v\<lparr>PodCount := PodCount v + n\<rparr> else v) vs)"
  shows "\<exists>v. (vpaID, v) \<in> set vs \<and> vpa_ID v' = vpa_ID v \<and> PodSelector v' = PodSelector v
     \<and> PodCount v' = PodCount v + (if P v then n else 0)"
proof -
  obtain v where v: "(vpaID, v) \<in> set vs"
    "v' = (if P v then v\<lparr>PodCount := PodCount v + n\<rparr> else v)"
    using assms unfolding map_ran_set by blast
  show ?thesis
    by (rule exI [of _ v]) (simp add: v)
qed

lemma shiftedD:
  "shifted d vs vs' \<Longrightarrow> (vpaID, v') \<in> set vs' \<Longrightarrow>
   \<exists>v. (vpaID, v) \<in> set vs \<and> vpa_ID v' = vpa_ID v \<and> PodSelector v' = PodSelector v
     \<and> PodCount v' = PodCount v + d (vpa_ID v) (PodSelector v)"
  unfolding shifted_def by blast

lemma shiftedI:
  "(\<And>vpaID v'. (vpaID, v') \<in> set vs' \<Longrightarrow>
     \<exists>v. (vpaID, v) \<in> set vs \<and> vpa_ID v' = vpa_ID v \<and> PodSelector v' = PodSelector v
       \<and> PodCount v' = PodCount v + d (vpa_ID v) (PodSelector v)) \<Longrightarrow> shifted d vs vs'"
  unfolding shifted_def by blast

lemma shifted_trans:
  assumes "shifted d1 vs vs'" "shifted d2 vs' vs''"
  shows "shifted (\<lambda>i s. d1 i s + d2 i s) vs vs''"
proof (rule shiftedI)
  fix vpaID v''
  assume "(vpaID, v'') \<in> set vs''"
  then obtain v' where v': "(vpaID, v') \<in> set vs'" "vpa_ID v'' = vpa_ID v'"
    "PodSelector v'' = PodSelector v'" "PodCount v'' = PodCount v' + d2 (vpa_ID v') (PodSelector v')"
    using shiftedD [OF assms(2)] by blast
  obtain v where v: "(vpaID, v) \<in> set vs" "vpa_ID v' = vpa_ID v"
    "PodSelector v' = PodSelector v" "PodCount v' = PodCount v + d1 (vpa_ID v) (PodSelector v)"
    using shiftedD [OF assms(1) v'(1)] by blast
  show "\<exists>v. (vpaID, v) \<in> set vs \<and> vpa_ID v'' = vpa_ID v \<and> PodSelector v'' = PodSelector v
     \<and> PodCount v'' = PodCount v + (d1 (vpa_ID v) (PodSelector v) + d2 (vpa_ID v) (PodSelector v))"
    by (rule exI [of _ v]) (simp add: v v')
qed

lemma sameCounts_shifted: "sameCounts vs vs' \<Longrightarrow> shifted (\<lambda>_ _. 0) vs vs'"
  by (rule shiftedI) (simp add: sameCounts_entry)

lemma map_ran_shifted:
  assumes "\<And>v. P v = Q (vpa_ID v) (PodSelector v)"
  shows "shifted (\<lambda>i s. if Q i s then n else 0) vs
     (AList.map_ran (\<lambda>_ v. if P v then v\<lparr>PodCount := PodCount v + n\<rparr> else v) vs)"
proof (rule shiftedI)
  fix vpaID v'
  assume "(vpaID, v') \<in> set (AList.map_ran
      (\<lambda>_ v. if P v then v\<lparr>PodCount := PodCount v + n\<rparr> else v) vs)"
  then have "\<exists>v. (vpaID, v) \<in> set vs \<and> vpa_ID v' = vpa_ID v \<and> PodSelector v' = PodSelector v
     \<and> PodCount v' = PodCount v + (if P v then n else 0)"
    by (rule map_ran_shift)
  then show "\<exists>v. (vpaID, v) \<in> set vs \<and> vpa_ID v' = vpa_ID v \<and> PodSelector v' = PodSelector v
     \<and> PodCount v' = PodCount v + (if Q (vpa_ID v) (PodSelector v) then n else 0)"
    unfolding assms .
qed

lemma countsOK_shift:
  assumes ok: "countsOK c"
    and vs: "shifted d (vpas c) (vpas c')"
    and ps: "\<And>vpaID selector.
        int (length (filter (matchingKey (labelSetMap c') vpaID selector) (podKeys (pods c')))) =
        int (length (filter (matchingKey (labelSetMap c) vpaID selector) (podKeys (pods c))))
          + d vpaID selector"
  shows "countsOK c'"
proof -
  have "PodCount v' = int (length (GetMatchingPods v' c'))"
    if in': "(vpaID, v') \<in> set (vpas c')" for vpaID v'
  proof -
    obtain v where v: "(vpaID, v) \<in> set (vpas c)" "vpa_ID v' = vpa_ID v"
      "PodSelector v' = PodSelector v" "PodCount v' = PodCount v + d (vpa_ID v) (PodSelector v)"
      using shiftedD [OF vs in'] by blast
    have "PodCount v = int (length (GetMatchingPods v c))"
      using ok v(1) by (auto simp: countsOK_def)
    then show ?thesis
      by (simp add: GetMatchingPods_count v ps)
  qed
  then show ?thesis unfolding countsOK_def by blast
qed

lemma podMatchesVpa_matchingKey:
  "podMatchesVpa c pod vpa =
     matchingKey (labelSetMap c) (vpa_ID vpa) (PodSelector vpa) (ID pod, labelSetKey pod)"
  by (simp add: podMatchesVpa_def matchingKey_def)

lemma linksOK_counts_only:
  assumes "linksOK c" "aggregateStateMap c' = aggregateStateMap c" "labelSetMap c' = labelSetMap c"
    "vpas c' = AList.map_ran F (vpas c)"
    "\<And>k v. vpa_ID (F k v) = vpa_ID v" "\<And>k v. PodSelector (F k v) = PodSelector v"
    "\<And>k v. aggregateContainerStates (F k v) = aggregateContainerStates v"
  shows "linksOK c'"
proof -
  have "vpa_ID v' = vpaID \<and> linksMatch (labelSetMap c) (aggregateStateMap c) v'"
    if in': "(vpaID, v') \<in> set (AList.map_ran F (vpas c))" for vpaID v'
  proof -
    obtain v where v: "(vpaID, v) \<in> set (vpas c)" "v' = F vpaID v"
      using in' unfolding map_ran_set by blast
    have "vpa_ID v = vpaID" "linksMatch (labelSetMap c) (aggregateStateMap c) v"
      using assms(1) v(1) by (auto simp: linksOK_def)
    then show ?thesis
      using linksMatch_cong [of "F vpaID v" v] by (simp add: v(2) assms(5,6,7))
  qed
  then show ?thesis
    using assms(1) unfolding linksOK_def assms(2,3,4) by auto
qed

lemma DeletePod_invariant:
  assumes "podsOK c" "linksOK c" "countsOK c"
  shows "podsOK (DeletePod podID c) \<and> linksOK (DeletePod podID c) \<and> countsOK (DeletePod podID c)"
proof (cases "map_of (pods c) podID")
  case None
  then have "podID \<notin> fst ` set (pods c)" by (simp add: map_of_eq_None_iff)
  then have "DeletePod podID c = c" using None by (simp add: DeletePod_def)
  then show ?thesis using assms by simp
next
  case (Some pod)
  let ?F = "\<lambda>(_::VpaID) vpa. if podMatchesVpa c pod vpa then vpa\<lparr>PodCount := PodCount vpa - 1\<rparr> else vpa"
  let ?c' = "DeletePod podID c"
  have c': "pods ?c' = AList.delete podID (pods c)" "vpas ?c' = AList.map_ran ?F (vpas c)"
    "labelSetMap ?c' = labelSetMap c" "aggregateStateMap ?c' = aggregateStateMap c"
    using Some by (simp_all add: DeletePod_def removePodFromItsVpa_def)
  have id: "ID pod = podID" using podsOK_lookup [OF assms(1) Some] by simp
  have p: "podsOK ?c'"
    using assms(1) unfolding podsOK_def c' by (auto simp: delete_as_filter distinct_map_filter)
  have l: "linksOK ?c'"
    by (rule linksOK_counts_only [OF assms(2) c'(4,3,2)]) simp_all
  have k: "countsOK ?c'"
  proof (rule countsOK_shift [OF assms(3),
        where d = "\<lambda>vpaID selector. if matchingKey (labelSetMap c) vpaID selector
                      (podID, labelSetKey pod) then - 1 else 0"])
    have F: "?F = (\<lambda>_ v. if podMatchesVpa c pod v then v\<lparr>PodCount := PodCount v + (- 1)\<rparr> else v)"
      by (simp add: fun_eq_iff)
    show "shifted (\<lambda>vpaID selector. if matchingKey (labelSetMap c) vpaID selector
                      (podID, labelSetKey pod) then - 1 else 0) (vpas c) (vpas ?c')"
      unfolding c' F by (rule map_ran_shifted) (simp add: podMatchesVpa_matchingKey id)
  next
    fix vpaID selector
    have d: "distinct (map fst (podKeys (pods c)))"
      using assms(1) by (simp add: podsOK_def map_fst_podKeys)
    have m: "map_of (podKeys (pods c)) podID = Some (labelSetKey pod)"
      by (simp add: map_of_podKeys Some)
    show "int (length (filter (matchingKey (labelSetMap ?c') vpaID selector) (podKeys (pods ?c')))) =
        int (length (filter (matchingKey (labelSetMap c) vpaID selector) (podKeys (pods c))))
          + (if matchingKey (labelSetMap c) vpaID selector (podID, labelSetKey pod) then - 1 else 0)"
      unfolding c' podKeys_delete by (simp add: count_delete [OF d m])
  qed
  from p l k show ?thesis by blast
qed

lemma DeleteVpa_frame:
  "pods (snd (DeleteVpa E vpaID c)) = pods c"
  "aggregateStateMap (snd (DeleteVpa E vpaID c)) = aggregateStateMap c"
  "labelSetMap (snd (DeleteVpa E vpaID c)) = labelSetMap c"
  "set (vpas (snd (DeleteVpa E vpaID c))) \<subseteq> set (vpas c)"
  "distinct (map fst (vpas c)) \<Longrightarrow> distinct (map fst (vpas (snd (DeleteVpa E vpaID c))))"
  by (auto simp: DeleteVpa_def delete_as_filter distinct_map_filter split: option.splits)

lemma DeleteVpa_invariant:
  assumes "podsOK c" "linksOK c" "countsOK c"
  shows "podsOK (snd (DeleteVpa E vpaID c)) \<and> linksOK (snd (DeleteVpa E vpaID c))
     \<and> countsOK (snd (DeleteVpa E vpaID c))"
proof -
  let ?c' = "snd (DeleteVpa E vpaID c)"
  have p: "podsOK ?c'" using assms(1) by (simp add: podsOK_def DeleteVpa_frame)
  have l: "linksOK ?c'"
    using assms(2) DeleteVpa_frame(4) [of E vpaID c] DeleteVpa_frame(5) [of c E vpaID]
    unfolding linksOK_def DeleteVpa_frame(2,3) by blast
  have g: "GetMatchingPods v ?c' = GetMatchingPods v c" for v
    by (rule GetMatchingPods_cong) (simp_all add: DeleteVpa_frame)
  have k: "countsOK ?c'"
    using assms(3) DeleteVpa_frame(4) [of E vpaID c] unfolding countsOK_def g by blast
  from p l k show ?thesis by blast
qed

lemma linksMatch_filter:
  assumes "linksMatch m idx v"
  shows "linksMatch m (filter (\<lambda>p. fst p \<notin> S) idx)
     (v\<lparr>aggregateContainerStates := filter (\<lambda>p. fst p \<notin> S) (aggregateContainerStates v)\<rparr>)"
proof -
  have mm: "matchesAggregation m
      (v\<lparr>aggregateContainerStates := filter (\<lambda>p. fst p \<notin> S) (aggregateContainerStates v)\<rparr>) K
      = matchesAggregation m v K" for K
    by (rule matchesAggregation_cong) simp_all
  show ?thesis
    unfolding linksMatch_def mm using assms by (simp add: linksMatch_def map_of_filter_keys)
qed

lemma garbageCollect_vpas:
  "vpas (garbageCollectAggregateCollectionStates E now f c) =
     AList.map_ran (\<lambda>_ vpa. vpa\<lparr>aggregateContainerStates :=
        filter (\<lambda>p. fst p \<notin> set (keysToDelete E now (getContributiveAggregateStateKeys f c)
                                  (heap c) (aggregateStateMap c)))
          (aggregateContainerStates vpa)\<rparr>) (vpas c)"
  "aggregateStateMap (garbageCollectAggregateCollectionStates E now f c) =
     filter (\<lambda>p. fst p \<notin> set (keysToDelete E now (getContributiveAggregateStateKeys f c)
                                  (heap c) (aggregateStateMap c)))
       (aggregateStateMap c)"
  by (simp_all add: garbageCollectAggregateCollectionStates_def deleteKeys_vpas
      deleteKeys_aggregateStateMap)

lemma garbageCollect_invariant:
  assumes "podsOK c" "linksOK c" "countsOK c"
  shows "podsOK (garbageCollectAggregateCollectionStates E now f c)
     \<and> linksOK (garbageCollectAggregateCollectionStates E now f c)
     \<and> countsOK (garbageCollectAggregateCollectionStates E now f c)"
proof -
  let ?c' = "garbageCollectAggregateCollectionStates E now f c"
  let ?S = "set (keysToDelete E now (getContributiveAggregateStateKeys f c) (heap c)
                  (aggregateStateMap c))"
  let ?F = "\<lambda>(_::VpaID) vpa. vpa\<lparr>aggregateContainerStates :=
        filter (\<lambda>p. fst p \<notin> ?S) (aggregateContainerStates vpa)\<rparr>"
  have p: "podsOK ?c'"
    using assms(1) by (simp add: podsOK_cong [of ?c' c] garbageCollect_frame)
  have "vpa_ID v' = vpaID \<and> linksMatch (labelSetMap ?c') (aggregateStateMap ?c') v'"
    if in': "(vpaID, v') \<in> set (vpas ?c')" for vpaID v'
  proof -
    obtain v where v: "(vpaID, v) \<in> set (vpas c)" "v' = ?F vpaID v"
      using in' unfolding garbageCollect_vpas map_ran_set by blast
    have "vpa_ID v = vpaID" "linksMatch (labelSetMap c) (aggregateStateMap c) v"
      using assms(2) v(1) by (auto simp: linksOK_def)
    then show ?thesis
      unfolding garbageCollect_vpas(2) garbageCollect_frame v(2)
      by (simp add: linksMatch_filter)
  qed
  then have l: "linksOK ?c'"
    using assms(2) unfolding linksOK_def
    by (auto simp: garbageCollect_vpas garbageCollect_frame distinct_map_filter)
  have "sameCounts (vpas c) (vpas ?c')"
    unfolding sameCounts_def garbageCollect_vpas by (rule exI [of _ ?F]) simp
  then have k: "countsOK ?c'"
    by (rule countsOK_sameCounts [OF assms(3)]) (simp_all add: garbageCollect_frame)
  from p l k show ?thesis by blast
qed

lemma RateLimitedGC_invariant:
  assumes "podsOK c" "linksOK c" "countsOK c"
  shows "podsOK (RateLimitedGarbageCollectAggregateCollectionStates E now f c)
     \<and> linksOK (RateLimitedGarbageCollectAggregateCollectionStates E now f c)
     \<and> countsOK (RateLimitedGarbageCollectAggregateCollectionStates E now f c)"
proof (cases "time_Sub now (lastAggregateContainerStateGC c) < gcInterval c")
  case True
  then show ?thesis using assms by (simp add: RateLimitedGarbageCollectAggregateCollectionStates_def)
next
  case False
  let ?g = "garbageCollectAggregateCollectionStates E now f c"
  let ?c' = "?g\<lparr>lastAggregateContainerStateGC := now\<rparr>"
  have "podsOK ?c' = podsOK ?g" by (rule podsOK_cong) simp_all
  moreover have "linksOK ?c' = linksOK ?g" by (rule linksOK_cong) simp_all
  moreover have "countsOK ?c' = countsOK ?g" by (simp add: countsOK_def GetMatchingPods_def)
  ultimately show ?thesis
    using False garbageCollect_invariant [OF assms, of E now f]
    by (simp add: RateLimitedGarbageCollectAggregateCollectionStates_def)
qed

lemma map_entry_append_absent:
  "map_of l k = None \<Longrightarrow> AList.map_entry k f (l @ [(k, v)]) = l @ [(k, f v)]"
  by (induction l) (auto split: if_splits)

lemma AddOrUpdateVpa_new_vpas:
  assumes absent: "map_of (vpas c) (VpaID (obj_Namespace obj) (obj_Name obj)) = None"
    and d: "distinct (map fst (aggregateStateMap c))"
  shows "\<exists>vpa. vpas (snd (AddOrUpdateVpa E obj selector c))
        = vpas c @ [(VpaID (obj_Namespace obj) (obj_Name obj), vpa)]
     \<and> vpa_ID vpa = VpaID (obj_Namespace obj) (obj_Name obj)
     \<and> linksMatch (labelSetMap c) (aggregateStateMap c) vpa
     \<and> PodCount vpa = int (length (GetMatchingPods vpa c))"
proof -
  let ?id = "VpaID (obj_Namespace obj) (obj_Name obj)"
  let ?v = "useAll (labelSetMap c) (aggregateStateMap c)
              (NewVpa ?id selector (obj_CreationTimestamp obj))"
  let ?vpa = "?v\<lparr>PodCount := int (length (GetMatchingPods ?v c))\<rparr>"
  have vs: "vpas (snd (AddOrUpdateVpa E obj selector c)) = vpas c @ [(?id, refreshVpa obj ?vpa)]"
    by (simp add: AddOrUpdateVpa_new [OF absent] createVpa_def Let_def update_absent [OF absent]
        map_entry_append_absent [OF absent])
  have ids: "vpa_ID ?vpa = ?id" "PodSelector ?vpa = selector"
    by (simp_all add: useAll_frame NewVpa_def)
  have m: "matchesAggregation (labelSetMap c) ?vpa K
      = matchesAggregation (labelSetMap c) (NewVpa ?id selector (obj_CreationTimestamp obj)) K" for K
    by (rule matchesAggregation_cong) (simp_all add: useAll_frame)
  have "linksMatch (labelSetMap c) (aggregateStateMap c) ?vpa"
    unfolding linksMatch_def m by (auto simp: useAll_links [OF d] NewVpa_def)
  then have links: "linksMatch (labelSetMap c) (aggregateStateMap c) (refreshVpa obj ?vpa)"
    using linksMatch_cong [of "refreshVpa obj ?vpa" ?vpa] by (simp add: refreshVpa_frame)
  have g: "GetMatchingPods (refreshVpa obj ?vpa) c = GetMatchingPods ?v c"
    by (rule GetMatchingPods_cong) (simp_all add: refreshVpa_frame)
  have count: "PodCount (refreshVpa obj ?vpa) = int (length (GetMatchingPods (refreshVpa obj ?vpa) c))"
    unfolding g by (simp add: refreshVpa_frame)
  show ?thesis
    using vs ids links count
    by (intro exI [of _ "refreshVpa obj ?vpa"] conjI) (simp_all only: refreshVpa_frame)
qed

lemma AddOrUpdateVpa_new_invariant:
  assumes absent: "map_of (vpas c) (VpaID (obj_Namespace obj) (obj_Name obj)) = None"
    and "podsOK c" "linksOK c" "countsOK c"
  shows "podsOK (snd (AddOrUpdateVpa E obj selector c))
     \<and> linksOK (snd (AddOrUpdateVpa E obj selector c))
     \<and> countsOK (snd (AddOrUpdateVpa E obj selector c))"
proof -
  let ?id = "VpaID (obj_Namespace obj) (obj_Name obj)"
  let ?c' = "snd (AddOrUpdateVpa E obj selector c)"
  have d: "distinct (map fst (aggregateStateMap c))" using assms(3) by (simp add: linksOK_def)
  obtain vpa where vpa: "vpas ?c' = vpas c @ [(?id, vpa)]" "vpa_ID vpa = ?id"
    "linksMatch (labelSetMap c) (aggregateStateMap c) vpa"
    "PodCount vpa = int (length (GetMatchingPods vpa c))"
    using AddOrUpdateVpa_new_vpas [OF absent d, of E selector] by blast
  have fr: "pods ?c' = pods c" "aggregateStateMap ?c' = aggregateStateMap c"
    "labelSetMap ?c' = labelSetMap c"
    by (simp_all add: AddOrUpdateVpa_frame)
  have notin: "?id \<notin> fst ` set (vpas c)" using absent by (simp add: map_of_eq_None_iff)
  have p: "podsOK ?c'" using assms(2) by (simp add: podsOK_cong [OF fr(1,3)])
  have l: "linksOK ?c'"
    using assms(3) notin vpa(2,3) unfolding linksOK_def fr vpa(1) by auto
  have g: "GetMatchingPods v ?c' = GetMatchingPods v c" for v
    by (rule GetMatchingPods_cong) (simp_all add: fr)
  have k: "countsOK ?c'"
    using assms(4) vpa(4) unfolding countsOK_def g vpa(1) by auto
  from p l k show ?thesis by blast
qed

lemma AddOrUpdateVpa_invariant:
  assumes "podsOK c" "linksOK c" "countsOK c"
  shows "podsOK (snd (AddOrUpdateVpa E obj selector c))
     \<and> linksOK (snd (AddOrUpdateVpa E obj selector c))
     \<and> countsOK (snd (AddOrUpdateVpa E obj selector c))"
proof (cases "map_of (vpas c) (VpaID (obj_Namespace obj) (obj_Name obj))")
  case None
  then show ?thesis by (rule AddOrUpdateVpa_new_invariant [OF _ assms])
next
  case (Some old)
  let ?id = "VpaID (obj_Namespace obj) (obj_Name obj)"
  show ?thesis
  proof (cases "sel_String (PodSelector old) = sel_String selector")
    case False
    let ?c0 = "snd (DeleteVpa E ?id c)"
    have gone: "map_of (vpas ?c0) ?id = None"
      by (simp add: DeleteVpa_present [OF Some] AList.delete_conv')
    have inv0: "podsOK ?c0" "linksOK ?c0" "countsOK ?c0"
      using DeleteVpa_invariant [OF assms, of E ?id] by simp_all
    show ?thesis
      unfolding AddOrUpdateVpa_changed [OF Some False]
      by (rule AddOrUpdateVpa_new_invariant [OF gone inv0])
  next
    case True
    let ?c' = "snd (AddOrUpdateVpa E obj selector c)"
    have c': "?c' = c\<lparr>vpas := AList.map_entry ?id (refreshVpa obj) (vpas c)\<rparr>"
      by (simp add: AddOrUpdateVpa_same [OF Some True])
    have entry: "\<exists>v. (vpaID, v) \<in> set (vpas c) \<and> vpa_ID v' = vpa_ID v
        \<and> PodSelector v' = PodSelector v \<and> PodCount v' = PodCount v
        \<and> aggregateContainerStates v' = aggregateContainerStates v"
      if in': "(vpaID, v') \<in> set (vpas ?c')" for vpaID v'
    proof -
      have "(vpaID, v') \<in> set (vpas c)
          \<or> (\<exists>v. (?id, v) \<in> set (vpas c) \<and> (vpaID, v') = (?id, refreshVpa obj v))"
        using in' unfolding c' by (auto dest: set_map_entry)
      then show ?thesis
      proof
        assume "(vpaID, v') \<in> set (vpas c)"
        then show ?thesis by blast
      next
        assume "\<exists>v. (?id, v) \<in> set (vpas c) \<and> (vpaID, v') = (?id, refreshVpa obj v)"
        then obtain v where v: "(?id, v) \<in> set (vpas c)" "vpaID = ?id" "v' = refreshVpa obj v"
          by blast
        show ?thesis
          by (rule exI [of _ v]) (simp add: v refreshVpa_frame)
      qed
    qed
    have p: "podsOK ?c'" using assms(1) by (simp add: c' podsOK_def)
    have "vpa_ID v' = vpaID \<and> linksMatch (labelSetMap ?c') (aggregateStateMap ?c') v'"
      if in': "(vpaID, v') \<in> set (vpas ?c')" for vpaID v'
    proof -
      obtain v where v: "(vpaID, v) \<in> set (vpas c)" "vpa_ID v' = vpa_ID v"
        "PodSelector v' = PodSelector v"
        "aggregateContainerStates v' = aggregateContainerStates v"
        using entry [OF in'] by blast
      have "vpa_ID v = vpaID" "linksMatch (labelSetMap c) (aggregateStateMap c) v"
        using assms(2) v(1) by (auto simp: linksOK_def)
      then show ?thesis
        using linksMatch_cong [OF v(2,3,4)] by (simp add: c' v(2))
    qed
    then have l: "linksOK ?c'"
      using assms(2) unfolding linksOK_def by (auto simp: c' map_fst_map_entry)
    have "PodCount v' = int (length (GetMatchingPods v' ?c'))"
      if in': "(vpaID, v') \<in> set (vpas ?c')" for vpaID v'
    proof -
      obtain v where v: "(vpaID, v) \<in> set (vpas c)" "vpa_ID v' = vpa_ID v"
        "PodSelector v' = PodSelector v" "PodCount v' = PodCount v"
        using entry [OF in'] by blast
      have "PodCount v = int (length (GetMatchingPods v c))"
        using assms(3) v(1) by (auto simp: countsOK_def)
      moreover have "GetMatchingPods v' ?c' = GetMatchingPods v c"
        by (rule GetMatchingPods_cong) (simp_all add: v c')
      ultimately show ?thesis by (simp add: v(4))
    qed
    then have k: "countsOK ?c'" unfolding countsOK_def by blast
    from p l k show ?thesis by blast
  qed
qed

lemma AddOrUpdateContainer_invariant:
  assumes "podsOK c" "linksOK c" "countsOK c"
  shows "\<exists>r c'. AddOrUpdateContainer E cid request c = Some (r, c')
     \<and> podsOK c' \<and> linksOK c' \<and> countsOK c'"
proof (cases "map_of (pods c) (PodID_of cid)")
  case None
  then show ?thesis using assms by (simp add: AddOrUpdateContainer_def)
next
  case (Some pod)
  note interned = podsOK_lookup [OF assms(1) Some]
  show ?thesis
  proof (cases "map_of (Containers pod) (ContainerName cid)")
    case None
    obtain a c1 where c1: "findOrCreateAggregateContainerState E cid c = Some (a, c1)"
      "pods c1 = pods c" "labelSetMap c1 = labelSetMap c"
      "sameCounts (vpas c) (vpas c1)"
      "linksOK c \<and> labelSetMap c (labelSetKey pod) \<noteq> None \<longrightarrow> linksOK c1"
      using findOrCreate_result [OF Some, of E] by blast
    let ?f = "\<lambda>p. p\<lparr>Containers := AList.update (ContainerName cid)
                 (NewContainerState request (ContainerStateAggregatorProxy cid)) (Containers p)\<rparr>"
    let ?c' = "c1\<lparr>pods := AList.map_entry (PodID_of cid) ?f (pods c1)\<rparr>"
    have run: "AddOrUpdateContainer E cid request c = Some (None, ?c')"
      using Some None by (simp add: AddOrUpdateContainer_def c1(1))
    have "podsOK c1" using assms(1) by (simp add: podsOK_cong [OF c1(2,3)])
    then have p: "podsOK ?c'"
      by (rule podsOK_map_entry [where f = ?f and k = "PodID_of cid"]) simp_all
    have "linksOK c1" using c1(5) assms(2) interned by blast
    then have l: "linksOK ?c'" by (simp add: linksOK_cong [of ?c' c1])
    have k: "countsOK ?c'"
      by (rule countsOK_sameCounts [OF assms(3)])
        (simp_all add: c1 podKeys_map_entry)
    from run p l k show ?thesis by blast
  next
    case (Some container)
    let ?f = "\<lambda>p. p\<lparr>Containers := AList.map_entry (ContainerName cid)
                 (\<lambda>c. c\<lparr>Request := request\<rparr>) (Containers p)\<rparr>"
    let ?c' = "c\<lparr>pods := AList.map_entry (PodID_of cid) ?f (pods c)\<rparr>"
    have run: "AddOrUpdateContainer E cid request c = Some (None, ?c')"
      using \<open>map_of (pods c) (PodID_of cid) = Some pod\<close> Some
      by (simp add: AddOrUpdateContainer_def)
    have p: "podsOK ?c'"
      by (rule podsOK_map_entry [OF assms(1), where f = ?f and k = "PodID_of cid"]) simp_all
    have l: "linksOK ?c'" using assms(2) by (simp add: linksOK_cong [of ?c' c])
    have k: "countsOK ?c'"
      by (rule countsOK_sameCounts [OF assms(3)])
        (simp_all add: sameCounts_refl podKeys_map_entry)
    from run p l k show ?thesis by blast
  qed
qed

lemma AddOrUpdatePod_new:
  assumes "map_of (pods c) podID = None"
  shows "AddOrUpdatePod E podID ls phase c =
    Some (c\<lparr>pods := pods c @ [(podID, (newPod podID)\<lparr>labelSetKey := LabelSetString ls, Phase := phase\<rparr>)],
            labelSetMap := (labelSetMap c)(LabelSetString ls \<mapsto> ls),
            vpas := AList.map_ran
              (\<lambda>_ v. if matchingKey ((labelSetMap c)(LabelSetString ls \<mapsto> ls)) (vpa_ID v)
                            (PodSelector v) (podID, LabelSetString ls)
                       then v\<lparr>PodCount := PodCount v + 1\<rparr> else v)
              (vpas c)\<rparr>)"
  using assms
  by (simp add: AddOrUpdatePod_def Let_def getLabelSetKey_def newPod_def setLabelSetKey_def
      setPhase_def addPodToItsVpa_def podMatchesVpa_matchingKey update_absent
      map_entry_append_absent)

lemma AddOrUpdatePod_same:
  assumes "map_of (pods c) podID = Some pod" "labelSetKey pod = LabelSetString ls"
  shows "AddOrUpdatePod E podID ls phase c = Some (setPhase podID phase (snd (getLabelSetKey ls c)))"
  using assms by (simp add: AddOrUpdatePod_def Let_def getLabelSetKey_def)

lemma AddOrUpdatePod_changed:
  assumes "map_of (pods c) podID = Some pod" "labelSetKey pod \<noteq> LabelSetString ls"
  shows "AddOrUpdatePod E podID ls phase c =
    (case relinkContainers E podID (map fst (Containers pod))
            (setLabelSetKey podID (LabelSetString ls)
               (removePodFromItsVpa pod (snd (getLabelSetKey ls c)))) of
       None \<Rightarrow> None
     | Some c4 \<Rightarrow>
         Some (setPhase podID phase
                 (addPodToItsVpa (pod\<lparr>labelSetKey := LabelSetString ls\<rparr>) c4)))"
  using assms by (simp add: AddOrUpdatePod_def Let_def getLabelSetKey_def)

lemma setPhase_invariant:
  assumes "podsOK c" "linksOK c" "countsOK c"
  shows "podsOK (setPhase podID phase c) \<and> linksOK (setPhase podID phase c)
     \<and> countsOK (setPhase podID phase c)"
proof -
  let ?f = "\<lambda>pod. pod\<lparr>Phase := phase\<rparr>"
  have p: "podsOK (setPhase podID phase c)"
    by (rule podsOK_map_entry [OF assms(1), where f = ?f and k = podID])
      (simp_all add: setPhase_def)
  have l: "linksOK (setPhase podID phase c)"
    using assms(2) by (simp add: linksOK_def setPhase_def)
  have k: "countsOK (setPhase podID phase c)"
    by (rule countsOK_sameCounts [OF assms(3)])
      (simp_all add: sameCounts_refl podKeys_map_entry setPhase_def)
  from p l k show ?thesis by blast
qed

lemma getLabelSetKey_invariant:
  assumes "podsOK c" "linksOK c" "countsOK c"
  shows "podsOK (snd (getLabelSetKey ls c))" "linksOK (snd (getLabelSetKey ls c))"
    "countsOK (snd (getLabelSetKey ls c))"
  using assms
  by (simp_all add: getLabelSetKey_podsOK getLabelSetKey_linksOK getLabelSetKey_countsOK)

lemma AddOrUpdatePod_new_invariant:
  assumes absent: "map_of (pods c) podID = None" and inv: "podsOK c" "linksOK c" "countsOK c"
  shows "\<exists>c'. AddOrUpdatePod E podID ls phase c = Some c' \<and> podsOK c' \<and> linksOK c' \<and> countsOK c'"
proof -
  let ?K = "LabelSetString ls"
  let ?m = "(labelSetMap c)(?K \<mapsto> ls)"
  let ?pod = "(newPod podID)\<lparr>labelSetKey := ?K, Phase := phase\<rparr>"
  let ?P = "\<lambda>v. matchingKey ?m (vpa_ID v) (PodSelector v) (podID, ?K)"
  let ?F = "\<lambda>(_::VpaID) v. if ?P v then v\<lparr>PodCount := PodCount v + 1\<rparr> else v"
  let ?ci = "snd (getLabelSetKey ls c)"
  let ?c' = "c\<lparr>pods := pods c @ [(podID, ?pod)], labelSetMap := ?m,
               vpas := AList.map_ran ?F (vpas c)\<rparr>"
  note ci = getLabelSetKey_invariant [OF inv, of ls]
  have run: "AddOrUpdatePod E podID ls phase c = Some ?c'"
    by (rule AddOrUpdatePod_new [OF absent])
  have notin: "podID \<notin> fst ` set (pods c)" using absent by (simp add: map_of_eq_None_iff)
  have p: "podsOK ?c'"
    using inv(1) notin unfolding podsOK_def by (auto simp: newPod_def)
  have l: "linksOK ?c'"
    by (rule linksOK_counts_only [OF ci(2), where F = ?F]) (simp_all add: getLabelSetKey_frame)
  have k: "countsOK ?c'"
  proof (rule countsOK_shift [OF ci(3),
        where d = "\<lambda>i s. if matchingKey ?m i s (podID, ?K) then 1 else 0"])
    show "shifted (\<lambda>i s. if matchingKey ?m i s (podID, ?K) then 1 else 0) (vpas ?ci) (vpas ?c')"
      unfolding getLabelSetKey_frame using map_ran_shifted [where P = ?P and n = 1 and vs = "vpas c",
          where Q = "\<lambda>i s. matchingKey ?m i s (podID, ?K)"]
      by simp
  next
    fix vpaID selector
    show "int (length (filter (matchingKey (labelSetMap ?c') vpaID selector) (podKeys (pods ?c')))) =
        int (length (filter (matchingKey (labelSetMap ?ci) vpaID selector) (podKeys (pods ?ci))))
          + (if matchingKey ?m vpaID selector (podID, ?K) then 1 else 0)"
      by (simp add: getLabelSetKey_frame podKeys_append newPod_def)
  qed
  from run p l k show ?thesis by blast
qed

lemma AddOrUpdatePod_same_invariant:
  assumes "map_of (pods c) podID = Some pod" "labelSetKey pod = LabelSetString ls"
    and inv: "podsOK c" "linksOK c" "countsOK c"
  shows "\<exists>c'. AddOrUpdatePod E podID ls phase c = Some c' \<and> podsOK c' \<and> linksOK c' \<and> countsOK c'"
  unfolding AddOrUpdatePod_same [OF assms(1,2)]
  using setPhase_invariant [OF getLabelSetKey_invariant [OF inv, of ls], of podID phase]
  by blast

lemma podsOK_setLabelSetKey:
  assumes "podsOK c" "labelSetMap c k \<noteq> None"
  shows "podsOK (setLabelSetKey podID k c)"
  using assms unfolding podsOK_def setLabelSetKey_def
  by (auto simp: map_fst_map_entry dest!: set_map_entry)

lemma AddOrUpdatePod_changed_invariant:
  assumes present: "map_of (pods c) podID = Some pod"
    and diff: "labelSetKey pod \<noteq> LabelSetString ls"
    and inv: "podsOK c" "linksOK c" "countsOK c"
  shows "\<exists>c'. AddOrUpdatePod E podID ls phase c = Some c' \<and> podsOK c' \<and> linksOK c' \<and> countsOK c'"
proof -
  let ?K = "LabelSetString ls"
  let ?ci = "snd (getLabelSetKey ls c)"
  let ?m = "labelSetMap ?ci"
  let ?d1 = "\<lambda>i s. if matchingKey ?m i s (podID, labelSetKey pod) then (- 1::int) else 0"
  let ?d2 = "\<lambda>i s. if matchingKey ?m i s (podID, ?K) then (1::int) else 0"
  let ?c3 = "removePodFromItsVpa pod ?ci"
  let ?c4 = "setLabelSetKey podID ?K ?c3"
  let ?pod' = "pod\<lparr>labelSetKey := ?K\<rparr>"
  note ci = getLabelSetKey_invariant [OF inv, of ls]
  have id: "ID pod = podID" using podsOK_lookup [OF inv(1) present] by simp
  have m: "?m = (labelSetMap c)(?K \<mapsto> ls)" by (simp add: getLabelSetKey_frame)
  have interned: "?m ?K \<noteq> None" by (simp add: getLabelSetKey_frame)
  have Feq: "(\<lambda>(_::VpaID) v. if podMatchesVpa ?ci pod v then v\<lparr>PodCount := PodCount v - 1\<rparr> else v)
      = (\<lambda>_ v. if podMatchesVpa ?ci pod v then v\<lparr>PodCount := PodCount v + (- 1)\<rparr> else v)"
    by (simp add: fun_eq_iff)
  have F3: "vpas ?c3 = AList.map_ran
      (\<lambda>_ v. if podMatchesVpa ?ci pod v then v\<lparr>PodCount := PodCount v + (- 1)\<rparr> else v) (vpas ?ci)"
    unfolding Feq [symmetric] by (simp add: removePodFromItsVpa_def)
  have fr3: "pods ?c3 = pods ?ci" "labelSetMap ?c3 = ?m" "aggregateStateMap ?c3 = aggregateStateMap ?ci"
    by (simp_all add: removePodFromItsVpa_def)
  have s3: "shifted ?d1 (vpas ?ci) (vpas ?c3)"
    unfolding F3 by (rule map_ran_shifted) (simp add: podMatchesVpa_matchingKey id)
  have l3: "linksOK ?c3"
    by (rule linksOK_counts_only [OF ci(2) fr3(3,2) F3]) simp_all
  have p3: "podsOK ?c3" using ci(1) by (simp add: podsOK_cong [OF fr3(1,2)])
  have fr4: "vpas ?c4 = vpas ?c3" "labelSetMap ?c4 = ?m" "aggregateStateMap ?c4 = aggregateStateMap ?c3"
    "pods ?c4 = AList.map_entry podID (\<lambda>p. p\<lparr>labelSetKey := ?K\<rparr>) (pods ?ci)"
    by (simp_all add: setLabelSetKey_def fr3)
  have p4: "podsOK ?c4"
    by (rule podsOK_setLabelSetKey [OF p3]) (simp add: fr3 interned)
  have l4: "linksOK ?c4" using l3 by (simp add: linksOK_cong [OF fr4(1,3)] fr4(2) fr3(2))
  have pod4: "map_of (pods ?c4) podID = Some ?pod'"
    by (simp add: fr4 map_of_map_entry_if getLabelSetKey_frame present)
  obtain c5 where c5: "relinkContainers E podID (map fst (Containers pod)) ?c4 = Some c5"
    "labelSetMap c5 = labelSetMap ?c4" "podKeys (pods c5) = podKeys (pods ?c4)"
    "sameCounts (vpas ?c4) (vpas c5)" "linksOK ?c4 \<and> podsOK ?c4 \<longrightarrow> linksOK c5 \<and> podsOK c5"
    using relinkContainers_result [OF pod4, of E "map fst (Containers pod)"] by blast
  let ?c6 = "addPodToItsVpa ?pod' c5"
  let ?c' = "setPhase podID phase ?c6"
  have run: "AddOrUpdatePod E podID ls phase c = Some ?c'"
    unfolding AddOrUpdatePod_changed [OF present diff] by (simp add: c5(1))
  have F6: "vpas ?c6 = AList.map_ran
      (\<lambda>_ v. if podMatchesVpa c5 ?pod' v then v\<lparr>PodCount := PodCount v + 1\<rparr> else v) (vpas c5)"
    by (simp add: addPodToItsVpa_def)
  have fr6: "pods ?c6 = pods c5" "labelSetMap ?c6 = ?m" "aggregateStateMap ?c6 = aggregateStateMap c5"
    by (simp_all add: addPodToItsVpa_def c5(2) fr4(2))
  have s6: "shifted ?d2 (vpas c5) (vpas ?c6)"
    unfolding F6
    by (rule map_ran_shifted) (simp add: podMatchesVpa_matchingKey id c5(2) fr4(2))
  have l5: "linksOK c5" and p5: "podsOK c5" using c5(5) l4 p4 by blast+
  have l6: "linksOK ?c6"
    by (rule linksOK_counts_only [OF l5 fr6(3) _ F6]) (simp_all add: fr6 c5(2) fr4(2))
  have p6: "podsOK ?c6" using p5 by (simp add: podsOK_cong [OF fr6(1)] fr6(2) c5(2) fr4(2))
  have k6: "countsOK ?c6"
  proof (rule countsOK_shift [OF ci(3), where d = "\<lambda>i s. (?d1 i s + 0) + ?d2 i s"])
    have "shifted (\<lambda>i s. ?d1 i s + 0) (vpas ?ci) (vpas c5)"
      using shifted_trans [OF s3, of "\<lambda>_ _. 0" "vpas c5"] sameCounts_shifted [OF c5(4)]
      by (simp add: fr4(1))
    then show "shifted (\<lambda>i s. (?d1 i s + 0) + ?d2 i s) (vpas ?ci) (vpas ?c6)"
      by (rule shifted_trans [OF _ s6])
  next
    fix vpaID selector
    have keys: "podKeys (pods ?c6) = AList.map_entry podID (\<lambda>_. ?K) (podKeys (pods ?ci))"
      by (simp add: fr6(1) c5(3) fr4(4) podKeys_map_entry_key)
    have look: "map_of (podKeys (pods ?ci)) podID = Some (labelSetKey pod)"
      by (simp add: map_of_podKeys getLabelSetKey_frame present)
    show "int (length (filter (matchingKey (labelSetMap ?c6) vpaID selector) (podKeys (pods ?c6)))) =
        int (length (filter (matchingKey ?m vpaID selector) (podKeys (pods ?ci))))
          + ((?d1 vpaID selector + 0) + ?d2 vpaID selector)"
      unfolding keys fr6(2) count_map_entry [OF look] by simp
  qed
  have "podsOK ?c' \<and> linksOK ?c' \<and> countsOK ?c'"
    by (rule setPhase_invariant [OF p6 l6 k6])
  with run show ?thesis by blast
qed

lemma AddOrUpdatePod_invariant:
  assumes "podsOK c" "linksOK c" "countsOK c"
  shows "\<exists>c'. AddOrUpdatePod E podID ls phase c = Some c' \<and> podsOK c' \<and> linksOK c' \<and> countsOK c'"
proof (cases "map_of (pods c) podID")
  case None
  then show ?thesis by (rule AddOrUpdatePod_new_invariant [OF _ assms])
next
  case (Some pod)
  show ?thesis
  proof (cases "labelSetKey pod = LabelSetString ls")
    case True
    show ?thesis by (rule AddOrUpdatePod_same_invariant [OF Some True assms])
  next
    case False
    show ?thesis by (rule AddOrUpdatePod_changed_invariant [OF Some False assms])
  qed
qed

subsection \<open>Every run from a fresh cluster state\<close>

lemma fresh_invariant:
  "podsOK (NewClusterState E interval)" "linksOK (NewClusterState E interval)"
  "countsOK (NewClusterState E interval)"
  by (simp_all add: podsOK_def linksOK_def countsOK_def NewClusterState_def)

lemma step_invariant:
  assumes "podsOK c" "linksOK c" "countsOK c"
  shows "\<exists>c'. step E op c = Some c' \<and> podsOK c' \<and> linksOK c' \<and> countsOK c'"
proof (cases op)
  case (OpAddOrUpdatePod podID ls phase)
  then show ?thesis using AddOrUpdatePod_invariant [OF assms] by simp
next
  case (OpDeletePod podID)
  then show ?thesis using DeletePod_invariant [OF assms] by simp
next
  case (OpAddOrUpdateContainer cid request)
  obtain r c' where "AddOrUpdateContainer E cid request c = Some (r, c')"
    "podsOK c'" "linksOK c'" "countsOK c'"
    using AddOrUpdateContainer_invariant [OF assms, of E cid request] by blast
  then show ?thesis using OpAddOrUpdateContainer by simp
next
  case (OpAddOrUpdateVpa obj selector)
  then show ?thesis using AddOrUpdateVpa_invariant [OF assms] by simp
next
  case (OpDeleteVpa vpaID)
  then show ?thesis using DeleteVpa_invariant [OF assms] by simp
next
  case (OpGarbageCollect now f)
  then show ?thesis using garbageCollect_invariant [OF assms] by simp
next
  case (OpRateLimitedGarbageCollect now f)
  then show ?thesis using RateLimitedGC_invariant [OF assms] by simp
qed

lemma run_invariant:
  assumes "podsOK c" "linksOK c" "countsOK c"
  shows "\<exists>c'. run E ops c = Some c' \<and> podsOK c' \<and> linksOK c' \<and> countsOK c'"
  using assms
proof (induction ops arbitrary: c)
  case Nil
  then show ?case by simp
next
  case (Cons op ops)
  obtain c1 where c1: "step E op c = Some c1" "podsOK c1" "linksOK c1" "countsOK c1"
    using step_invariant [OF Cons.prems, of E op] by blast
  show ?case using Cons.IH [OF c1(2,3,4)] by (simp add: c1(1))
qed

text \<open>
  Claim C1 (invariant I2). Every finite sequence of \<^verbatim>\<open>AddOrUpdatePod\<close>, \<^verbatim>\<open>DeletePod\<close>,
  \<^verbatim>\<open>AddOrUpdateContainer\<close>, \<^verbatim>\<open>AddOrUpdateVpa\<close>, \<^verbatim>\<open>DeleteVpa\<close> and sweeps (direct or
  rate limited), run from a fresh cluster state, completes without a panic, and in the
  state it reaches every registered policy object holds a link to a key of the
  aggregation index if and only if the key's namespace and label set match the policy's
  namespace and pod selector. Moreover every link a policy holds is the index entry of
  its key, and both tables have the distinct keys of a Go map.
\<close>

theorem links_consistent_after_every_run:
  "\<exists>c. run E ops (NewClusterState E interval) = Some c
     \<and> (\<forall>(vpaID, vpa) \<in> set (vpas c). \<forall>K.
           map_of (aggregateStateMap c) K \<noteq> None \<longrightarrow>
             (UsesAggregation vpa K \<longleftrightarrow> matchesAggregation (labelSetMap c) vpa K))
     \<and> (\<forall>(vpaID, vpa) \<in> set (vpas c). \<forall>K a.
           map_of (aggregateContainerStates vpa) K = Some a \<longrightarrow>
             map_of (aggregateStateMap c) K = Some a)
     \<and> distinct (map fst (vpas c)) \<and> distinct (map fst (aggregateStateMap c))"
proof -
  obtain c where c: "run E ops (NewClusterState E interval) = Some c" "linksOK c"
    using run_invariant [OF fresh_invariant, where ops = ops] by blast
  have l: "map_of (aggregateContainerStates vpa) K =
      (if matchesAggregation (labelSetMap c) vpa K then map_of (aggregateStateMap c) K else None)"
    if "(vpaID, vpa) \<in> set (vpas c)" for vpaID vpa K
    using c(2) that unfolding linksOK_def linksMatch_def by blast
  have first: "\<forall>(vpaID, vpa) \<in> set (vpas c). \<forall>K.
           map_of (aggregateStateMap c) K \<noteq> None \<longrightarrow>
             (UsesAggregation vpa K \<longleftrightarrow> matchesAggregation (labelSetMap c) vpa K)"
    using l by (auto simp: UsesAggregation_def split: if_splits)
  have second: "\<forall>(vpaID, vpa) \<in> set (vpas c). \<forall>K a.
           map_of (aggregateContainerStates vpa) K = Some a \<longrightarrow>
             map_of (aggregateStateMap c) K = Some a"
    using l by (auto split: if_splits)
  have third: "distinct (map fst (vpas c)) \<and> distinct (map fst (aggregateStateMap c))"
    using c(2) by (simp add: linksOK_def)
  from c(1) first second third show ?thesis by blast
qed

text \<open>
  Claim C2 (invariant I3). After every finite sequence of mutations run from a fresh
  cluster state, every registered policy object's \<^verbatim>\<open>PodCount\<close> is the number of pods of
  the pod registry whose namespace and label set match the policy's namespace and
  selector: the length of what \<^verbatim>\<open>GetMatchingPods\<close> finds by a full scan of the registry,
  whose keys are distinct.
\<close>

theorem pod_counts_correct_after_every_run:
  "\<exists>c. run E ops (NewClusterState E interval) = Some c
     \<and> (\<forall>(vpaID, vpa) \<in> set (vpas c). PodCount vpa = int (length (GetMatchingPods vpa c)))
     \<and> distinct (map fst (pods c)) \<and> distinct (map fst (vpas c))"
proof -
  obtain c where c: "run E ops (NewClusterState E interval) = Some c"
    "podsOK c" "linksOK c" "countsOK c"
    using run_invariant [OF fresh_invariant, where ops = ops] by blast
  then show ?thesis unfolding countsOK_def podsOK_def linksOK_def by blast
qed

lemma example_counted_run:
  "run exampleAccumulator exampleScenario exampleFresh = Some exampleCounted"
  by (simp add: exampleCounted_def exampleScenario_def model_defs example_defs Let_def)

lemma example_counted:
  "pods exampleCounted = [(examplePod, exampleRunningPod)]"
  "aggregateStateMap exampleCounted = [(exampleKey, 0)]"
  "vpas exampleCounted = [(exampleVpaID, exampleCountedVpa)]"
  "labelSetMap exampleCounted = [LabelSetString exampleLabels \<mapsto> exampleLabels]"
  "nextAddr exampleCounted = 1"
  by (simp_all add: exampleCounted_def exampleScenario_def exampleCountedVpa_def
      exampleRunningPod_def model_defs example_defs Let_def)

text \<open>
  The scenario, run: the policy, registered before the pod it selects, is linked to the
  aggregation that the pod's container brings into the index.
\<close>

theorem links_consistent_after_every_run_witness:
  "run exampleAccumulator exampleScenario exampleFresh = Some exampleCounted
   \<and> vpas exampleCounted = [(exampleVpaID, exampleCountedVpa)]
   \<and> map_of (aggregateStateMap exampleCounted) exampleKey = Some 0
   \<and> UsesAggregation exampleCountedVpa exampleKey
   \<and> matchesAggregation (labelSetMap exampleCounted) exampleCountedVpa exampleKey"
proof -
  obtain c where c: "run exampleAccumulator exampleScenario exampleFresh = Some c"
    and links: "\<forall>(vpaID, vpa) \<in> set (vpas c). \<forall>K.
           map_of (aggregateStateMap c) K \<noteq> None \<longrightarrow>
             (UsesAggregation vpa K \<longleftrightarrow> matchesAggregation (labelSetMap c) vpa K)"
    using links_consistent_after_every_run
      [where E = exampleAccumulator and ops = exampleScenario and interval = "10 * Minute"]
    unfolding exampleFresh_def by blast
  have eq: "c = exampleCounted" using c by (simp add: example_counted_run)
  have uses: "UsesAggregation exampleCountedVpa exampleKey"
    by (simp add: UsesAggregation_def exampleCountedVpa_def)
  have "UsesAggregation exampleCountedVpa exampleKey
      \<longleftrightarrow> matchesAggregation (labelSetMap exampleCounted) exampleCountedVpa exampleKey"
    using links unfolding eq by (simp add: example_counted)
  with uses show ?thesis by (simp add: example_counted_run example_counted)
qed

text \<open>
  The scenario, run: the policy counts the one pod it selects.
\<close>

theorem pod_counts_correct_after_every_run_witness:
  "run exampleAccumulator exampleScenario exampleFresh = Some exampleCounted
   \<and> vpas exampleCounted = [(exampleVpaID, exampleCountedVpa)]
   \<and> PodCount exampleCountedVpa = 1
   \<and> length (GetMatchingPods exampleCountedVpa exampleCounted) = 1"
proof -
  obtain c where c: "run exampleAccumulator exampleScenario exampleFresh = Some c"
    and counts: "\<forall>(vpaID, vpa) \<in> set (vpas c).
      PodCount vpa = int (length (GetMatchingPods vpa c))"
    using pod_counts_correct_after_every_run
      [where E = exampleAccumulator and ops = exampleScenario and interval = "10 * Minute"]
    unfolding exampleFresh_def by blast
  have eq: "c = exampleCounted" using c by (simp add: example_counted_run)
  have one: "PodCount exampleCountedVpa = 1" by (simp add: exampleCountedVpa_def)
  have "PodCount exampleCountedVpa
      = int (length (GetMatchingPods exampleCountedVpa exampleCounted))"
    using counts unfolding eq by (simp add: example_counted)
  with one show ?thesis by (simp add: example_counted_run example_counted)
qed

subsection \<open>Container references\<close>


lemma podRefsOK_cong:
  assumes "podRefsOK idx podID pod" "Containers pod' = Containers pod" "ID pod' = ID pod"
    "labelSetKey pod' = labelSetKey pod"
  shows "podRefsOK idx podID pod'"
  using assms unfolding podRefsOK_def MakeAggregateStateKey_def by simp



















end
